theory Spec2Isabelle
  imports Complex_Main "HOL-Library.Word"
begin

unbundle bit_operations_syntax

section \<open>The bus and the register file\<close>

text \<open>
  Modelled from the spec: the register macros \<^verbatim>\<open>BQ25798_REG_*\<close> through which the
  driver \<^verbatim>\<open>Adafruit_BQ25798.cpp\<close> names the registers of the charger. They are
  defined in the header \<^verbatim>\<open>Adafruit_BQ25798.h\<close>, which is not in the repository, with
  numeric addresses (spec 6: "each named register has a fixed address"). Here a register
  is identified by the name of its macro, and registers with different names are
  different registers.
\<close>

datatype reg =
    BQ25798_REG_MINIMAL_SYSTEM_VOLTAGE
  | BQ25798_REG_CHARGE_VOLTAGE_LIMIT
  | BQ25798_REG_CHARGE_CURRENT_LIMIT
  | BQ25798_REG_INPUT_VOLTAGE_LIMIT
  | BQ25798_REG_INPUT_CURRENT_LIMIT
  | BQ25798_REG_PRECHARGE_CONTROL
  | BQ25798_REG_TERMINATION_CONTROL
  | BQ25798_REG_RECHARGE_CONTROL
  | BQ25798_REG_VOTG_REGULATION
  | BQ25798_REG_IOTG_REGULATION
  | BQ25798_REG_TIMER_CONTROL
  | BQ25798_REG_CHARGER_CONTROL_0
  | BQ25798_REG_CHARGER_CONTROL_1
  | BQ25798_REG_CHARGER_CONTROL_2
  | BQ25798_REG_CHARGER_CONTROL_3
  | BQ25798_REG_CHARGER_CONTROL_4
  | BQ25798_REG_CHARGER_CONTROL_5
  | BQ25798_REG_MPPT_CONTROL
  | BQ25798_REG_TEMPERATURE_CONTROL
  | BQ25798_REG_PART_INFORMATION

text \<open>
  The chip behind the handle \<^verbatim>\<open>i2c_dev\<close>, as the driver sees it:
  \<^item> \<open>acks\<close>: the chip answers on the bus (a transaction with a chip that does not
    answer fails);
  \<^item> \<open>regs\<close>: the contents of the registers; a two-byte register holds the number its
    bytes denote, most significant byte first;
  \<^item> \<open>failed_read\<close>: what a read that fails hands back to the caller;
  \<^item> \<open>bus_writes\<close>: the write transactions issued so far, oldest first, each with the
    register and the value sent.
  The chip's own reactions (a self-clearing bit falling back, the registers returning to
  their defaults after a reset) are not part of the driver and are not represented.
\<close>

record dev =
  acks :: bool
  regs :: "reg \<Rightarrow> 32 word"
  failed_read :: "32 word"
  bus_writes :: "(reg \<times> 32 word) list"

text \<open>
  The enumerations of the same header (\<^verbatim>\<open>bq25798_vbat_lowv_t\<close>,
  \<^verbatim>\<open>bq25798_wdt_t\<close>, ...) are passed as their ordinals. The enumerators that the
  setters compare against are values of the header; they are parameters of the
  development, carried by the record below.
\<close>

record header =
  BQ25798_VBAT_LOWV_71_4_PERCENT :: nat
  BQ25798_CELL_COUNT_4S :: nat
  BQ25798_TRECHG_2048MS :: nat
  BQ25798_PRECHG_TMR_0_5HR :: nat
  BQ25798_TOPOFF_TMR_45MIN :: nat
  BQ25798_CHG_TMR_24HR :: nat
  BQ25798_VBUS_BACKUP_100_PERCENT :: nat
  BQ25798_VAC_OVP_7V :: nat
  BQ25798_WDT_160S :: nat
  BQ25798_SDRV_SYSTEM_RESET :: nat
  BQ25798_WKUP_DLY_15MS :: nat
  BQ25798_PWM_FREQ_750KHZ :: nat

subsection \<open>Register and bit-field access\<close>

text \<open>
  A register object names a register and its width in bytes; a bit-field object names a
  register object, a width in bits and the offset of the field's lowest bit.
\<close>

datatype Adafruit_BusIO_Register = Register reg nat

datatype Adafruit_BusIO_RegisterBits = RegisterBits Adafruit_BusIO_Register nat nat

text \<open>
  Modelled from the spec: \<^verbatim>\<open>Adafruit_I2CDevice::begin\<close>, the opening of the device
  session, which belongs to the bus library and is not in the repository (spec 6: "open a
  device session at a numeric address on a given bus instance (fails if unreachable)").
\<close>

definition I2CDevice_begin :: "dev \<Rightarrow> bool" where
  "I2CDevice_begin d = acks d"

text \<open>
  Modelled from the spec: \<^verbatim>\<open>Adafruit_BusIO_Register::read\<close> and
  \<^verbatim>\<open>Adafruit_BusIO_Register::write\<close> of the bus library (spec 6: "read N bytes from
  a register address in a declared byte order; write N bytes to a register address in a
  declared byte order"). A register of \<open>w\<close> bytes carries the low \<open>8 * w\<close> bits of the
  value. The write reports whether the transaction went through.
\<close>

definition Register_read :: "Adafruit_BusIO_Register \<Rightarrow> dev \<Rightarrow> 32 word" where
  "Register_read R d =
     (case R of Register a w \<Rightarrow>
        if acks d then take_bit (8 * w) (regs d a) else failed_read d)"

definition Register_write :: "Adafruit_BusIO_Register \<Rightarrow> 32 word \<Rightarrow> dev \<Rightarrow> bool \<times> dev" where
  "Register_write R v d =
     (case R of Register a w \<Rightarrow>
        let x = take_bit (8 * w) v;
            d = d\<lparr>bus_writes := bus_writes d @ [(a, x)]\<rparr>
        in if acks d then (True, d\<lparr>regs := (regs d)(a := x)\<rparr>) else (False, d))"

text \<open>
  Modelled from the spec: \<^verbatim>\<open>Adafruit_BusIO_RegisterBits::read\<close> and
  \<^verbatim>\<open>Adafruit_BusIO_RegisterBits::write\<close> of the bus library (spec 4.2: "read the
  full register, extract the bit-field via shift-and-mask, and return the raw unsigned
  integer value, 0 \<le> value < 2^bitWidth"; "read the current full register, clear exactly
  the target bits, OR in the new value shifted into position, write the full register
  back"). The value is cut to the width of the field before it is merged.
\<close>

definition RegisterBits_read :: "Adafruit_BusIO_RegisterBits \<Rightarrow> dev \<Rightarrow> 32 word" where
  "RegisterBits_read B d =
     (case B of RegisterBits R bits shift \<Rightarrow>
        let val = Register_read R d;
            val = drop_bit shift val
        in val AND mask bits)"

definition RegisterBits_write ::
    "Adafruit_BusIO_RegisterBits \<Rightarrow> 32 word \<Rightarrow> dev \<Rightarrow> bool \<times> dev" where
  "RegisterBits_write B data d =
     (case B of RegisterBits R bits shift \<Rightarrow>
        let val = Register_read R d;
            m = mask bits;
            data = data AND m;
            m = push_bit shift m;
            val = val AND NOT m;
            val = val OR push_bit shift data
        in Register_write R val d)"

section \<open>Single-precision arithmetic\<close>

text \<open>
  The driver computes with \<^verbatim>\<open>float\<close>. The model is IEEE 754 binary32 with every
  operation rounded to nearest, ties to even, and no wider intermediate precision: a
  finite value is the rational number it denotes, an operation computes the exact
  result and rounds it. The sign of zero is not represented; the driver never divides
  by a variable and never inspects a sign, and the comparisons treat both zeros alike.
\<close>

datatype f32 = Finite rat | PInf | NInf | NaN

text \<open>The number of binary digits of a natural number.\<close>

fun bitlen :: "nat \<Rightarrow> nat" where
  "bitlen n = (if n = 0 then 0 else Suc (bitlen (n div 2)))"

declare bitlen.simps [simp del]

text \<open>The binary exponent of a positive rational: the \<open>e\<close> with \<open>2^e \<le> x < 2^(e+1)\<close>.\<close>

definition ilog2 :: "rat \<Rightarrow> int" where
  "ilog2 x = (if 1 \<le> x then int (bitlen (nat \<lfloor>x\<rfloor>)) - 1
              else - int (bitlen (nat (\<lceil>1 / x\<rceil> - 1))))"

text \<open>Rounding to the nearest integer, ties to the even one.\<close>

definition rne :: "rat \<Rightarrow> int" where
  "rne x = (let f = \<lfloor>x\<rfloor>; r = x - of_int f
            in if r < 1 / 2 then f else if 1 / 2 < r then f + 1
               else if even f then f else f + 1)"

text \<open>
  Rounding a rational to binary32: 24 significant bits, exponents from \<open>-126\<close> (below
  it the spacing stays \<open>2^-149\<close>, the subnormal numbers), overflow to infinity from
  \<open>2^128\<close> on.
\<close>

definition round32 :: "rat \<Rightarrow> f32" where
  "round32 x =
     (if x = 0 then Finite 0
      else let e = max (ilog2 \<bar>x\<bar>) (- 126) - 23;
               y = of_int (rne (x / 2 powi e)) * 2 powi e
           in if 2 ^ 128 \<le> \<bar>y\<bar> then (if 0 < x then PInf else NInf) else Finite y)"

text \<open>A literal such as \<^verbatim>\<open>18.8f\<close> denotes the binary32 number nearest to the decimal.\<close>

definition f32_lit :: "rat \<Rightarrow> f32" where
  "f32_lit x = round32 x"

text \<open>The conversion of an integer to \<^verbatim>\<open>float\<close>.\<close>

definition f32_of_int :: "int \<Rightarrow> f32" where
  "f32_of_int i = round32 (of_int i)"

fun f32_add :: "f32 \<Rightarrow> f32 \<Rightarrow> f32" where
  "f32_add (Finite a) (Finite b) = round32 (a + b)"
| "f32_add NaN _ = NaN"
| "f32_add _ NaN = NaN"
| "f32_add PInf NInf = NaN"
| "f32_add NInf PInf = NaN"
| "f32_add PInf _ = PInf"
| "f32_add NInf _ = NInf"
| "f32_add _ PInf = PInf"
| "f32_add _ NInf = NInf"

fun f32_sub :: "f32 \<Rightarrow> f32 \<Rightarrow> f32" where
  "f32_sub (Finite a) (Finite b) = round32 (a - b)"
| "f32_sub NaN _ = NaN"
| "f32_sub _ NaN = NaN"
| "f32_sub PInf PInf = NaN"
| "f32_sub NInf NInf = NaN"
| "f32_sub PInf _ = PInf"
| "f32_sub NInf _ = NInf"
| "f32_sub _ PInf = NInf"
| "f32_sub _ NInf = PInf"

fun f32_mul :: "f32 \<Rightarrow> f32 \<Rightarrow> f32" where
  "f32_mul (Finite a) (Finite b) = round32 (a * b)"
| "f32_mul NaN _ = NaN"
| "f32_mul _ NaN = NaN"
| "f32_mul (Finite a) PInf = (if a = 0 then NaN else if 0 < a then PInf else NInf)"
| "f32_mul (Finite a) NInf = (if a = 0 then NaN else if 0 < a then NInf else PInf)"
| "f32_mul PInf (Finite b) = (if b = 0 then NaN else if 0 < b then PInf else NInf)"
| "f32_mul NInf (Finite b) = (if b = 0 then NaN else if 0 < b then NInf else PInf)"
| "f32_mul PInf PInf = PInf"
| "f32_mul PInf NInf = NInf"
| "f32_mul NInf PInf = NInf"
| "f32_mul NInf NInf = PInf"

fun f32_div :: "f32 \<Rightarrow> f32 \<Rightarrow> f32" where
  "f32_div (Finite a) (Finite b) =
     (if b = 0 then (if a = 0 then NaN else if 0 < a then PInf else NInf)
      else round32 (a / b))"
| "f32_div NaN _ = NaN"
| "f32_div _ NaN = NaN"
| "f32_div (Finite a) _ = Finite 0"
| "f32_div PInf (Finite b) = (if 0 \<le> b then PInf else NInf)"
| "f32_div NInf (Finite b) = (if 0 \<le> b then NInf else PInf)"
| "f32_div PInf PInf = NaN"
| "f32_div PInf NInf = NaN"
| "f32_div NInf PInf = NaN"
| "f32_div NInf NInf = NaN"

text \<open>The comparisons \<^verbatim>\<open><\<close> and \<^verbatim>\<open>>\<close>: false as soon as an operand is not a number.\<close>

fun f32_less :: "f32 \<Rightarrow> f32 \<Rightarrow> bool" where
  "f32_less NaN _ = False"
| "f32_less _ NaN = False"
| "f32_less (Finite a) (Finite b) = (a < b)"
| "f32_less _ NInf = False"
| "f32_less NInf _ = True"
| "f32_less PInf _ = False"
| "f32_less _ PInf = True"

definition f32_greater :: "f32 \<Rightarrow> f32 \<Rightarrow> bool" where
  "f32_greater x y = f32_less y x"

text \<open>
  The conversion of a \<^verbatim>\<open>float\<close> to an unsigned integer type drops the fraction. When
  the result does not fit the type, or the operand is not a number, the behaviour of
  the program is undefined: the conversion has no result.
\<close>

fun f32_trunc :: "f32 \<Rightarrow> int option" where
  "f32_trunc (Finite x) = Some (if 0 \<le> x then \<lfloor>x\<rfloor> else \<lceil>x\<rceil>)"
| "f32_trunc _ = None"

definition f32_to_uint8 :: "f32 \<Rightarrow> 8 word option" where
  "f32_to_uint8 x =
     (case f32_trunc x of
        None \<Rightarrow> None
      | Some i \<Rightarrow> if 0 \<le> i \<and> i < 2 ^ 8 then Some (word_of_int i) else None)"

definition f32_to_uint16 :: "f32 \<Rightarrow> 16 word option" where
  "f32_to_uint16 x =
     (case f32_trunc x of
        None \<Rightarrow> None
      | Some i \<Rightarrow> if 0 \<le> i \<and> i < 2 ^ 16 then Some (word_of_int i) else None)"

section \<open>The driver\<close>

text \<open>
  Every accessor of \<^verbatim>\<open>Adafruit_BQ25798.cpp\<close> takes the chip and returns its result
  with the chip after the call. The handle \<^verbatim>\<open>i2c_dev\<close> is the chip itself.
\<close>

subsection \<open>Voltages and currents\<close>

text \<open>
  A setter whose conversion to the register value has no result has none either
  (\<open>None\<close>); otherwise it returns \<open>Some\<close> of its return value and the chip.
\<close>

definition getMinSystemV :: "dev \<Rightarrow> f32" where
  "getMinSystemV d =
     (let vsys_reg = Register BQ25798_REG_MINIMAL_SYSTEM_VOLTAGE 1;
          vsys_bits = RegisterBits vsys_reg 6 0;
          reg_value = (ucast (RegisterBits_read vsys_bits d) :: 8 word)
      in f32_add (f32_mul (f32_of_int (uint reg_value)) (f32_lit (25 / 100))) (f32_lit (25 / 10)))"

definition setMinSystemV :: "f32 \<Rightarrow> dev \<Rightarrow> (bool \<times> dev) option" where
  "setMinSystemV voltage d =
     (if f32_less voltage (f32_lit (25 / 10)) \<or> f32_greater voltage (f32_lit 16) then Some (False, d)
      else case f32_to_uint8 (f32_div (f32_sub voltage (f32_lit (25 / 10))) (f32_lit (25 / 100))) of
        None \<Rightarrow> None
      | Some reg_value \<Rightarrow>
          let reg_value = (if reg_value > 63 then 63 else reg_value);
              vsys_reg = Register BQ25798_REG_MINIMAL_SYSTEM_VOLTAGE 1;
              vsys_bits = RegisterBits vsys_reg 6 0;
              d = snd (RegisterBits_write vsys_bits (ucast reg_value) d)
          in Some (True, d))"

definition getChargeLimitV :: "dev \<Rightarrow> f32" where
  "getChargeLimitV d =
     (let vreg_reg = Register BQ25798_REG_CHARGE_VOLTAGE_LIMIT 2;
          vreg_bits = RegisterBits vreg_reg 11 0;
          reg_value = (ucast (RegisterBits_read vreg_bits d) :: 16 word)
      in f32_mul (f32_of_int (uint reg_value)) (f32_lit (1 / 100)))"

definition setChargeLimitV :: "f32 \<Rightarrow> dev \<Rightarrow> (bool \<times> dev) option" where
  "setChargeLimitV voltage d =
     (if f32_less voltage (f32_lit 3) \<or> f32_greater voltage (f32_lit (188 / 10)) then Some (False, d)
      else case f32_to_uint16 (f32_div voltage (f32_lit (1 / 100))) of
        None \<Rightarrow> None
      | Some reg_value \<Rightarrow>
          let reg_value = (if reg_value > 2047 then 2047 else reg_value);
              vreg_reg = Register BQ25798_REG_CHARGE_VOLTAGE_LIMIT 2;
              vreg_bits = RegisterBits vreg_reg 11 0;
              d = snd (RegisterBits_write vreg_bits (ucast reg_value) d)
          in Some (True, d))"

definition getChargeLimitA :: "dev \<Rightarrow> f32" where
  "getChargeLimitA d =
     (let ichg_reg = Register BQ25798_REG_CHARGE_CURRENT_LIMIT 2;
          ichg_bits = RegisterBits ichg_reg 9 0;
          reg_value = (ucast (RegisterBits_read ichg_bits d) :: 16 word)
      in f32_mul (f32_of_int (uint reg_value)) (f32_lit (1 / 100)))"

definition setChargeLimitA :: "f32 \<Rightarrow> dev \<Rightarrow> (bool \<times> dev) option" where
  "setChargeLimitA current d =
     (if f32_less current (f32_lit (5 / 100)) \<or> f32_greater current (f32_lit 5) then Some (False, d)
      else case f32_to_uint16 (f32_div current (f32_lit (1 / 100))) of
        None \<Rightarrow> None
      | Some reg_value \<Rightarrow>
          let reg_value = (if reg_value > 511 then 511 else reg_value);
              ichg_reg = Register BQ25798_REG_CHARGE_CURRENT_LIMIT 2;
              ichg_bits = RegisterBits ichg_reg 9 0;
              d = snd (RegisterBits_write ichg_bits (ucast reg_value) d)
          in Some (True, d))"

definition getInputLimitV :: "dev \<Rightarrow> f32" where
  "getInputLimitV d =
     (let vindpm_reg = Register BQ25798_REG_INPUT_VOLTAGE_LIMIT 1;
          reg_value = (ucast (Register_read vindpm_reg d) :: 8 word)
      in f32_mul (f32_of_int (uint reg_value)) (f32_lit (1 / 10)))"

definition setInputLimitV :: "f32 \<Rightarrow> dev \<Rightarrow> (bool \<times> dev) option" where
  "setInputLimitV voltage d =
     (if f32_less voltage (f32_lit (36 / 10)) \<or> f32_greater voltage (f32_lit 22) then Some (False, d)
      else case f32_to_uint8 (f32_div voltage (f32_lit (1 / 10))) of
        None \<Rightarrow> None
      | Some reg_value \<Rightarrow>
          let reg_value = (if reg_value > 255 then 255 else reg_value);
              vindpm_reg = Register BQ25798_REG_INPUT_VOLTAGE_LIMIT 1;
              d = snd (Register_write vindpm_reg (ucast reg_value) d)
          in Some (True, d))"

definition getInputLimitA :: "dev \<Rightarrow> f32" where
  "getInputLimitA d =
     (let iindpm_reg = Register BQ25798_REG_INPUT_CURRENT_LIMIT 2;
          iindpm_bits = RegisterBits iindpm_reg 9 0;
          reg_value = (ucast (RegisterBits_read iindpm_bits d) :: 16 word)
      in f32_mul (f32_of_int (uint reg_value)) (f32_lit (1 / 100)))"

definition setInputLimitA :: "f32 \<Rightarrow> dev \<Rightarrow> (bool \<times> dev) option" where
  "setInputLimitA current d =
     (if f32_less current (f32_lit (1 / 10)) \<or> f32_greater current (f32_lit (33 / 10)) then Some (False, d)
      else case f32_to_uint16 (f32_div current (f32_lit (1 / 100))) of
        None \<Rightarrow> None
      | Some reg_value \<Rightarrow>
          let reg_value = (if reg_value > 511 then 511 else reg_value);
              iindpm_reg = Register BQ25798_REG_INPUT_CURRENT_LIMIT 2;
              iindpm_bits = RegisterBits iindpm_reg 9 0;
              d = snd (RegisterBits_write iindpm_bits (ucast reg_value) d)
          in Some (True, d))"

definition getPrechargeLimitA :: "dev \<Rightarrow> f32" where
  "getPrechargeLimitA d =
     (let precharge_reg = Register BQ25798_REG_PRECHARGE_CONTROL 1;
          iprechg_bits = RegisterBits precharge_reg 6 0;
          reg_value = (ucast (RegisterBits_read iprechg_bits d) :: 8 word)
      in f32_mul (f32_of_int (uint reg_value)) (f32_lit (4 / 100)))"

definition setPrechargeLimitA :: "f32 \<Rightarrow> dev \<Rightarrow> (bool \<times> dev) option" where
  "setPrechargeLimitA current d =
     (if f32_less current (f32_lit (4 / 100)) \<or> f32_greater current (f32_lit 2) then Some (False, d)
      else case f32_to_uint8 (f32_div current (f32_lit (4 / 100))) of
        None \<Rightarrow> None
      | Some reg_value \<Rightarrow>
          let reg_value = (if reg_value > 63 then 63 else reg_value);
              precharge_reg = Register BQ25798_REG_PRECHARGE_CONTROL 1;
              iprechg_bits = RegisterBits precharge_reg 6 0;
              d = snd (RegisterBits_write iprechg_bits (ucast reg_value) d)
          in Some (True, d))"

definition getTerminationA :: "dev \<Rightarrow> f32" where
  "getTerminationA d =
     (let term_reg = Register BQ25798_REG_TERMINATION_CONTROL 1;
          iterm_bits = RegisterBits term_reg 5 0;
          reg_value = (ucast (RegisterBits_read iterm_bits d) :: 8 word)
      in f32_mul (f32_of_int (uint reg_value)) (f32_lit (4 / 100)))"

definition setTerminationA :: "f32 \<Rightarrow> dev \<Rightarrow> (bool \<times> dev) option" where
  "setTerminationA current d =
     (if f32_less current (f32_lit (4 / 100)) \<or> f32_greater current (f32_lit 1) then Some (False, d)
      else case f32_to_uint8 (f32_div current (f32_lit (4 / 100))) of
        None \<Rightarrow> None
      | Some reg_value \<Rightarrow>
          let reg_value = (if reg_value > 31 then 31 else reg_value);
              term_reg = Register BQ25798_REG_TERMINATION_CONTROL 1;
              iterm_bits = RegisterBits term_reg 5 0;
              d = snd (RegisterBits_write iterm_bits (ucast reg_value) d)
          in Some (True, d))"

definition getRechargeThreshOffsetV :: "dev \<Rightarrow> f32" where
  "getRechargeThreshOffsetV d =
     (let recharge_reg = Register BQ25798_REG_RECHARGE_CONTROL 1;
          vrechg_bits = RegisterBits recharge_reg 4 0;
          reg_value = (ucast (RegisterBits_read vrechg_bits d) :: 8 word)
      in f32_add (f32_mul (f32_of_int (uint reg_value)) (f32_lit (5 / 100))) (f32_lit (5 / 100)))"

definition setRechargeThreshOffsetV :: "f32 \<Rightarrow> dev \<Rightarrow> (bool \<times> dev) option" where
  "setRechargeThreshOffsetV voltage d =
     (if f32_less voltage (f32_lit (5 / 100)) \<or> f32_greater voltage (f32_lit (8 / 10)) then Some (False, d)
      else case f32_to_uint8 (f32_div (f32_sub voltage (f32_lit (5 / 100))) (f32_lit (5 / 100))) of
        None \<Rightarrow> None
      | Some reg_value \<Rightarrow>
          let reg_value = (if reg_value > 15 then 15 else reg_value);
              recharge_reg = Register BQ25798_REG_RECHARGE_CONTROL 1;
              vrechg_bits = RegisterBits recharge_reg 4 0;
              d = snd (RegisterBits_write vrechg_bits (ucast reg_value) d)
          in Some (True, d))"

definition getOTGV :: "dev \<Rightarrow> f32" where
  "getOTGV d =
     (let votg_reg = Register BQ25798_REG_VOTG_REGULATION 2;
          votg_bits = RegisterBits votg_reg 11 0;
          reg_value = (ucast (RegisterBits_read votg_bits d) :: 16 word)
      in f32_add (f32_mul (f32_of_int (uint reg_value)) (f32_lit (1 / 100))) (f32_lit (28 / 10)))"

definition setOTGV :: "f32 \<Rightarrow> dev \<Rightarrow> (bool \<times> dev) option" where
  "setOTGV voltage d =
     (if f32_less voltage (f32_lit (28 / 10)) \<or> f32_greater voltage (f32_lit 22) then Some (False, d)
      else case f32_to_uint16 (f32_div (f32_sub voltage (f32_lit (28 / 10))) (f32_lit (1 / 100))) of
        None \<Rightarrow> None
      | Some reg_value \<Rightarrow>
          let reg_value = (if reg_value > 2047 then 2047 else reg_value);
              votg_reg = Register BQ25798_REG_VOTG_REGULATION 2;
              votg_bits = RegisterBits votg_reg 11 0;
              d = snd (RegisterBits_write votg_bits (ucast reg_value) d)
          in Some (True, d))"

definition getOTGLimitA :: "dev \<Rightarrow> f32" where
  "getOTGLimitA d =
     (let iotg_reg = Register BQ25798_REG_IOTG_REGULATION 1;
          iotg_bits = RegisterBits iotg_reg 7 0;
          reg_value = (ucast (RegisterBits_read iotg_bits d) :: 8 word)
      in f32_mul (f32_of_int (uint reg_value)) (f32_lit (4 / 100)))"

definition setOTGLimitA :: "f32 \<Rightarrow> dev \<Rightarrow> (bool \<times> dev) option" where
  "setOTGLimitA current d =
     (if f32_less current (f32_lit (16 / 100)) \<or> f32_greater current (f32_lit (336 / 100)) then Some (False, d)
      else case f32_to_uint8 (f32_div current (f32_lit (4 / 100))) of
        None \<Rightarrow> None
      | Some reg_value \<Rightarrow>
          let reg_value = (if reg_value > 127 then 127 else reg_value);
              iotg_reg = Register BQ25798_REG_IOTG_REGULATION 1;
              iotg_bits = RegisterBits iotg_reg 7 0;
              d = snd (RegisterBits_write iotg_bits (ucast reg_value) d)
          in Some (True, d))"

subsection \<open>Enumerated settings, flags and actions\<close>

definition setVBatLowV :: "header \<Rightarrow> nat \<Rightarrow> dev \<Rightarrow> bool \<times> dev" where
  "setVBatLowV h threshold d =
     (if threshold > BQ25798_VBAT_LOWV_71_4_PERCENT h then (False, d)
      else let precharge_reg = Register BQ25798_REG_PRECHARGE_CONTROL 1;
               vbat_lowv_bits = RegisterBits precharge_reg 2 6;
               d = snd (RegisterBits_write vbat_lowv_bits (ucast (of_nat threshold :: 8 word)) d)
           in (True, d))"

definition setStopOnWDT :: "bool \<Rightarrow> dev \<Rightarrow> bool \<times> dev" where
  "setStopOnWDT stopOnWDT d =
     (let term_reg = Register BQ25798_REG_TERMINATION_CONTROL 1;
          stop_wd_bit = RegisterBits term_reg 1 5;
          d = snd (RegisterBits_write stop_wd_bit (if stopOnWDT then 1 else 0) d)
      in (True, d))"

definition setCellCount :: "header \<Rightarrow> nat \<Rightarrow> dev \<Rightarrow> bool \<times> dev" where
  "setCellCount h cellCount d =
     (if cellCount > BQ25798_CELL_COUNT_4S h then (False, d)
      else let recharge_reg = Register BQ25798_REG_RECHARGE_CONTROL 1;
               cell_bits = RegisterBits recharge_reg 2 6;
               d = snd (RegisterBits_write cell_bits (ucast (of_nat cellCount :: 8 word)) d)
           in (True, d))"

definition setRechargeDeglitchTime :: "header \<Rightarrow> nat \<Rightarrow> dev \<Rightarrow> bool \<times> dev" where
  "setRechargeDeglitchTime h deglitchTime d =
     (if deglitchTime > BQ25798_TRECHG_2048MS h then (False, d)
      else let recharge_reg = Register BQ25798_REG_RECHARGE_CONTROL 1;
               trechg_bits = RegisterBits recharge_reg 2 4;
               d = snd (RegisterBits_write trechg_bits (ucast (of_nat deglitchTime :: 8 word)) d)
           in (True, d))"

definition setPrechargeTimer :: "header \<Rightarrow> nat \<Rightarrow> dev \<Rightarrow> bool \<times> dev" where
  "setPrechargeTimer h timer d =
     (if timer > BQ25798_PRECHG_TMR_0_5HR h then (False, d)
      else let iotg_reg = Register BQ25798_REG_IOTG_REGULATION 1;
               prechg_tmr_bit = RegisterBits iotg_reg 1 7;
               d = snd (RegisterBits_write prechg_tmr_bit (ucast (of_nat timer :: 8 word)) d)
           in (True, d))"

definition setTopOffTimer :: "header \<Rightarrow> nat \<Rightarrow> dev \<Rightarrow> bool \<times> dev" where
  "setTopOffTimer h timer d =
     (if timer > BQ25798_TOPOFF_TMR_45MIN h then (False, d)
      else let timer_reg = Register BQ25798_REG_TIMER_CONTROL 1;
               topoff_bits = RegisterBits timer_reg 2 6;
               d = snd (RegisterBits_write topoff_bits (ucast (of_nat timer :: 8 word)) d)
           in (True, d))"

definition setTrickleChargeTimerEnable :: "bool \<Rightarrow> dev \<Rightarrow> bool \<times> dev" where
  "setTrickleChargeTimerEnable enable d =
     (let timer_reg = Register BQ25798_REG_TIMER_CONTROL 1;
          trickle_bit = RegisterBits timer_reg 1 5;
          d = snd (RegisterBits_write trickle_bit (if enable then 1 else 0) d)
      in (True, d))"

definition setPrechargeTimerEnable :: "bool \<Rightarrow> dev \<Rightarrow> bool \<times> dev" where
  "setPrechargeTimerEnable enable d =
     (let timer_reg = Register BQ25798_REG_TIMER_CONTROL 1;
          prechg_bit = RegisterBits timer_reg 1 4;
          d = snd (RegisterBits_write prechg_bit (if enable then 1 else 0) d)
      in (True, d))"

definition setFastChargeTimerEnable :: "bool \<Rightarrow> dev \<Rightarrow> bool \<times> dev" where
  "setFastChargeTimerEnable enable d =
     (let timer_reg = Register BQ25798_REG_TIMER_CONTROL 1;
          chg_bit = RegisterBits timer_reg 1 3;
          d = snd (RegisterBits_write chg_bit (if enable then 1 else 0) d)
      in (True, d))"

definition setFastChargeTimer :: "header \<Rightarrow> nat \<Rightarrow> dev \<Rightarrow> bool \<times> dev" where
  "setFastChargeTimer h timer d =
     (if timer > BQ25798_CHG_TMR_24HR h then (False, d)
      else let timer_reg = Register BQ25798_REG_TIMER_CONTROL 1;
               chg_tmr_bits = RegisterBits timer_reg 2 1;
               d = snd (RegisterBits_write chg_tmr_bits (ucast (of_nat timer :: 8 word)) d)
           in (True, d))"

definition setTimerHalfRateEnable :: "bool \<Rightarrow> dev \<Rightarrow> bool \<times> dev" where
  "setTimerHalfRateEnable enable d =
     (let timer_reg = Register BQ25798_REG_TIMER_CONTROL 1;
          tmr2x_bit = RegisterBits timer_reg 1 0;
          d = snd (RegisterBits_write tmr2x_bit (if enable then 1 else 0) d)
      in (True, d))"

definition setAutoOVPBattDischarge :: "bool \<Rightarrow> dev \<Rightarrow> bool \<times> dev" where
  "setAutoOVPBattDischarge enable d =
     (let chg_ctrl0_reg = Register BQ25798_REG_CHARGER_CONTROL_0 1;
          auto_ibatdis_bit = RegisterBits chg_ctrl0_reg 1 7;
          d = snd (RegisterBits_write auto_ibatdis_bit (if enable then 1 else 0) d)
      in (True, d))"

definition setForceBattDischarge :: "bool \<Rightarrow> dev \<Rightarrow> bool \<times> dev" where
  "setForceBattDischarge enable d =
     (let chg_ctrl0_reg = Register BQ25798_REG_CHARGER_CONTROL_0 1;
          force_ibatdis_bit = RegisterBits chg_ctrl0_reg 1 6;
          d = snd (RegisterBits_write force_ibatdis_bit (if enable then 1 else 0) d)
      in (True, d))"

definition setChargeEnable :: "bool \<Rightarrow> dev \<Rightarrow> bool \<times> dev" where
  "setChargeEnable enable d =
     (let chg_ctrl0_reg = Register BQ25798_REG_CHARGER_CONTROL_0 1;
          en_chg_bit = RegisterBits chg_ctrl0_reg 1 5;
          d = snd (RegisterBits_write en_chg_bit (if enable then 1 else 0) d)
      in (True, d))"

definition setICOEnable :: "bool \<Rightarrow> dev \<Rightarrow> bool \<times> dev" where
  "setICOEnable enable d =
     (let chg_ctrl0_reg = Register BQ25798_REG_CHARGER_CONTROL_0 1;
          en_ico_bit = RegisterBits chg_ctrl0_reg 1 4;
          d = snd (RegisterBits_write en_ico_bit (if enable then 1 else 0) d)
      in (True, d))"

definition setForceICO :: "bool \<Rightarrow> dev \<Rightarrow> bool \<times> dev" where
  "setForceICO enable d =
     (let chg_ctrl0_reg = Register BQ25798_REG_CHARGER_CONTROL_0 1;
          force_ico_bit = RegisterBits chg_ctrl0_reg 1 3;
          d = snd (RegisterBits_write force_ico_bit (if enable then 1 else 0) d)
      in (True, d))"

definition setHIZMode :: "bool \<Rightarrow> dev \<Rightarrow> bool \<times> dev" where
  "setHIZMode enable d =
     (let chg_ctrl0_reg = Register BQ25798_REG_CHARGER_CONTROL_0 1;
          en_hiz_bit = RegisterBits chg_ctrl0_reg 1 2;
          d = snd (RegisterBits_write en_hiz_bit (if enable then 1 else 0) d)
      in (True, d))"

definition setTerminationEnable :: "bool \<Rightarrow> dev \<Rightarrow> bool \<times> dev" where
  "setTerminationEnable enable d =
     (let chg_ctrl0_reg = Register BQ25798_REG_CHARGER_CONTROL_0 1;
          en_term_bit = RegisterBits chg_ctrl0_reg 1 1;
          d = snd (RegisterBits_write en_term_bit (if enable then 1 else 0) d)
      in (True, d))"

definition setBackupModeEnable :: "bool \<Rightarrow> dev \<Rightarrow> bool \<times> dev" where
  "setBackupModeEnable enable d =
     (let chg_ctrl0_reg = Register BQ25798_REG_CHARGER_CONTROL_0 1;
          en_backup_bit = RegisterBits chg_ctrl0_reg 1 0;
          d = snd (RegisterBits_write en_backup_bit (if enable then 1 else 0) d)
      in (True, d))"

definition setBackupModeThresh :: "header \<Rightarrow> nat \<Rightarrow> dev \<Rightarrow> bool \<times> dev" where
  "setBackupModeThresh h threshold d =
     (if threshold > BQ25798_VBUS_BACKUP_100_PERCENT h then (False, d)
      else let chg_ctrl1_reg = Register BQ25798_REG_CHARGER_CONTROL_1 1;
               vbus_backup_bits = RegisterBits chg_ctrl1_reg 2 6;
               d = snd (RegisterBits_write vbus_backup_bits (ucast (of_nat threshold :: 8 word)) d)
           in (True, d))"

definition setVACOVP :: "header \<Rightarrow> nat \<Rightarrow> dev \<Rightarrow> bool \<times> dev" where
  "setVACOVP h threshold d =
     (if threshold > BQ25798_VAC_OVP_7V h then (False, d)
      else let chg_ctrl1_reg = Register BQ25798_REG_CHARGER_CONTROL_1 1;
               vac_ovp_bits = RegisterBits chg_ctrl1_reg 2 4;
               d = snd (RegisterBits_write vac_ovp_bits (ucast (of_nat threshold :: 8 word)) d)
           in (True, d))"

definition resetWDT :: "dev \<Rightarrow> bool \<times> dev" where
  "resetWDT d =
     (let chg_ctrl1_reg = Register BQ25798_REG_CHARGER_CONTROL_1 1;
          wd_rst_bit = RegisterBits chg_ctrl1_reg 1 3;
          d = snd (RegisterBits_write wd_rst_bit 1 d)
      in (True, d))"

definition setWDT :: "header \<Rightarrow> nat \<Rightarrow> dev \<Rightarrow> bool \<times> dev" where
  "setWDT h timer d =
     (if timer > BQ25798_WDT_160S h then (False, d)
      else let chg_ctrl1_reg = Register BQ25798_REG_CHARGER_CONTROL_1 1;
               watchdog_bits = RegisterBits chg_ctrl1_reg 3 0;
               d = snd (RegisterBits_write watchdog_bits (ucast (of_nat timer :: 8 word)) d)
           in (True, d))"

definition setForceDPinsDetection :: "bool \<Rightarrow> dev \<Rightarrow> bool \<times> dev" where
  "setForceDPinsDetection enable d =
     (let chg_ctrl2_reg = Register BQ25798_REG_CHARGER_CONTROL_2 1;
          force_indet_bit = RegisterBits chg_ctrl2_reg 1 7;
          d = snd (RegisterBits_write force_indet_bit (if enable then 1 else 0) d)
      in (True, d))"

definition setAutoDPinsDetection :: "bool \<Rightarrow> dev \<Rightarrow> bool \<times> dev" where
  "setAutoDPinsDetection enable d =
     (let chg_ctrl2_reg = Register BQ25798_REG_CHARGER_CONTROL_2 1;
          auto_indet_bit = RegisterBits chg_ctrl2_reg 1 6;
          d = snd (RegisterBits_write auto_indet_bit (if enable then 1 else 0) d)
      in (True, d))"

definition setHVDCP12VEnable :: "bool \<Rightarrow> dev \<Rightarrow> bool \<times> dev" where
  "setHVDCP12VEnable enable d =
     (let chg_ctrl2_reg = Register BQ25798_REG_CHARGER_CONTROL_2 1;
          en_12v_bit = RegisterBits chg_ctrl2_reg 1 5;
          d = snd (RegisterBits_write en_12v_bit (if enable then 1 else 0) d)
      in (True, d))"

definition setHVDCP9VEnable :: "bool \<Rightarrow> dev \<Rightarrow> bool \<times> dev" where
  "setHVDCP9VEnable enable d =
     (let chg_ctrl2_reg = Register BQ25798_REG_CHARGER_CONTROL_2 1;
          en_9v_bit = RegisterBits chg_ctrl2_reg 1 4;
          d = snd (RegisterBits_write en_9v_bit (if enable then 1 else 0) d)
      in (True, d))"

definition setHVDCPEnable :: "bool \<Rightarrow> dev \<Rightarrow> bool \<times> dev" where
  "setHVDCPEnable enable d =
     (let chg_ctrl2_reg = Register BQ25798_REG_CHARGER_CONTROL_2 1;
          hvdcp_en_bit = RegisterBits chg_ctrl2_reg 1 3;
          d = snd (RegisterBits_write hvdcp_en_bit (if enable then 1 else 0) d)
      in (True, d))"

definition setShipFETmode :: "header \<Rightarrow> nat \<Rightarrow> dev \<Rightarrow> bool \<times> dev" where
  "setShipFETmode h mode d =
     (if mode > BQ25798_SDRV_SYSTEM_RESET h then (False, d)
      else let chg_ctrl2_reg = Register BQ25798_REG_CHARGER_CONTROL_2 1;
               sdrv_ctrl_bits = RegisterBits chg_ctrl2_reg 2 1;
               d = snd (RegisterBits_write sdrv_ctrl_bits (ucast (of_nat mode :: 8 word)) d)
           in (True, d))"

definition setShipFET10sDelay :: "bool \<Rightarrow> dev \<Rightarrow> bool \<times> dev" where
  "setShipFET10sDelay enable d =
     (let chg_ctrl2_reg = Register BQ25798_REG_CHARGER_CONTROL_2 1;
          sdrv_dly_bit = RegisterBits chg_ctrl2_reg 1 0;
          d = snd (RegisterBits_write sdrv_dly_bit (if enable then 1 else 0) d)
      in (True, d))"

definition getACenable :: "dev \<Rightarrow> bool" where
  "getACenable d =
     (let chg_ctrl3_reg = Register BQ25798_REG_CHARGER_CONTROL_3 1;
          dis_acdrv_bit = RegisterBits chg_ctrl3_reg 1 7
      in RegisterBits_read dis_acdrv_bit d = 0)"

definition setACenable :: "bool \<Rightarrow> dev \<Rightarrow> bool \<times> dev" where
  "setACenable enable d =
     (let chg_ctrl3_reg = Register BQ25798_REG_CHARGER_CONTROL_3 1;
          dis_acdrv_bit = RegisterBits chg_ctrl3_reg 1 7;
          d = snd (RegisterBits_write dis_acdrv_bit (if enable then 0 else 1) d)
      in (True, d))"

definition setOTGenable :: "bool \<Rightarrow> dev \<Rightarrow> bool \<times> dev" where
  "setOTGenable enable d =
     (let chg_ctrl3_reg = Register BQ25798_REG_CHARGER_CONTROL_3 1;
          en_otg_bit = RegisterBits chg_ctrl3_reg 1 6;
          d = snd (RegisterBits_write en_otg_bit (if enable then 1 else 0) d)
      in (True, d))"

definition getOTGPFM :: "dev \<Rightarrow> bool" where
  "getOTGPFM d =
     (let chg_ctrl3_reg = Register BQ25798_REG_CHARGER_CONTROL_3 1;
          pfm_otg_dis_bit = RegisterBits chg_ctrl3_reg 1 5
      in RegisterBits_read pfm_otg_dis_bit d = 0)"

definition setOTGPFM :: "bool \<Rightarrow> dev \<Rightarrow> bool \<times> dev" where
  "setOTGPFM enable d =
     (let chg_ctrl3_reg = Register BQ25798_REG_CHARGER_CONTROL_3 1;
          pfm_otg_dis_bit = RegisterBits chg_ctrl3_reg 1 5;
          d = snd (RegisterBits_write pfm_otg_dis_bit (if enable then 0 else 1) d)
      in (True, d))"

definition getForwardPFM :: "dev \<Rightarrow> bool" where
  "getForwardPFM d =
     (let chg_ctrl3_reg = Register BQ25798_REG_CHARGER_CONTROL_3 1;
          pfm_fwd_dis_bit = RegisterBits chg_ctrl3_reg 1 4
      in RegisterBits_read pfm_fwd_dis_bit d = 0)"

definition setForwardPFM :: "bool \<Rightarrow> dev \<Rightarrow> bool \<times> dev" where
  "setForwardPFM enable d =
     (let chg_ctrl3_reg = Register BQ25798_REG_CHARGER_CONTROL_3 1;
          pfm_fwd_dis_bit = RegisterBits chg_ctrl3_reg 1 4;
          d = snd (RegisterBits_write pfm_fwd_dis_bit (if enable then 0 else 1) d)
      in (True, d))"

definition setShipWakeupDelay :: "header \<Rightarrow> nat \<Rightarrow> dev \<Rightarrow> bool \<times> dev" where
  "setShipWakeupDelay h delay d =
     (if delay > BQ25798_WKUP_DLY_15MS h then (False, d)
      else let chg_ctrl3_reg = Register BQ25798_REG_CHARGER_CONTROL_3 1;
               wkup_dly_bit = RegisterBits chg_ctrl3_reg 1 3;
               d = snd (RegisterBits_write wkup_dly_bit (ucast (of_nat delay :: 8 word)) d)
           in (True, d))"

definition getBATFETLDOprecharge :: "dev \<Rightarrow> bool" where
  "getBATFETLDOprecharge d =
     (let chg_ctrl3_reg = Register BQ25798_REG_CHARGER_CONTROL_3 1;
          dis_ldo_bit = RegisterBits chg_ctrl3_reg 1 2
      in RegisterBits_read dis_ldo_bit d = 0)"

definition setBATFETLDOprecharge :: "bool \<Rightarrow> dev \<Rightarrow> bool \<times> dev" where
  "setBATFETLDOprecharge enable d =
     (let chg_ctrl3_reg = Register BQ25798_REG_CHARGER_CONTROL_3 1;
          dis_ldo_bit = RegisterBits chg_ctrl3_reg 1 2;
          d = snd (RegisterBits_write dis_ldo_bit (if enable then 0 else 1) d)
      in (True, d))"

definition getOTGOOA :: "dev \<Rightarrow> bool" where
  "getOTGOOA d =
     (let chg_ctrl3_reg = Register BQ25798_REG_CHARGER_CONTROL_3 1;
          dis_otg_ooa_bit = RegisterBits chg_ctrl3_reg 1 1
      in RegisterBits_read dis_otg_ooa_bit d = 0)"

definition setOTGOOA :: "bool \<Rightarrow> dev \<Rightarrow> bool \<times> dev" where
  "setOTGOOA enable d =
     (let chg_ctrl3_reg = Register BQ25798_REG_CHARGER_CONTROL_3 1;
          dis_otg_ooa_bit = RegisterBits chg_ctrl3_reg 1 1;
          d = snd (RegisterBits_write dis_otg_ooa_bit (if enable then 0 else 1) d)
      in (True, d))"

definition getForwardOOA :: "dev \<Rightarrow> bool" where
  "getForwardOOA d =
     (let chg_ctrl3_reg = Register BQ25798_REG_CHARGER_CONTROL_3 1;
          dis_fwd_ooa_bit = RegisterBits chg_ctrl3_reg 1 0
      in RegisterBits_read dis_fwd_ooa_bit d = 0)"

definition setForwardOOA :: "bool \<Rightarrow> dev \<Rightarrow> bool \<times> dev" where
  "setForwardOOA enable d =
     (let chg_ctrl3_reg = Register BQ25798_REG_CHARGER_CONTROL_3 1;
          dis_fwd_ooa_bit = RegisterBits chg_ctrl3_reg 1 0;
          d = snd (RegisterBits_write dis_fwd_ooa_bit (if enable then 0 else 1) d)
      in (True, d))"

definition setACDRV2enable :: "bool \<Rightarrow> dev \<Rightarrow> bool \<times> dev" where
  "setACDRV2enable enable d =
     (let chg_ctrl4_reg = Register BQ25798_REG_CHARGER_CONTROL_4 1;
          en_acdrv2_bit = RegisterBits chg_ctrl4_reg 1 7;
          d = snd (RegisterBits_write en_acdrv2_bit (if enable then 1 else 0) d)
      in (True, d))"

definition setACDRV1enable :: "bool \<Rightarrow> dev \<Rightarrow> bool \<times> dev" where
  "setACDRV1enable enable d =
     (let chg_ctrl4_reg = Register BQ25798_REG_CHARGER_CONTROL_4 1;
          en_acdrv1_bit = RegisterBits chg_ctrl4_reg 1 6;
          d = snd (RegisterBits_write en_acdrv1_bit (if enable then 1 else 0) d)
      in (True, d))"

definition setPWMFrequency :: "header \<Rightarrow> nat \<Rightarrow> dev \<Rightarrow> bool \<times> dev" where
  "setPWMFrequency h frequency d =
     (if frequency > BQ25798_PWM_FREQ_750KHZ h then (False, d)
      else let chg_ctrl4_reg = Register BQ25798_REG_CHARGER_CONTROL_4 1;
               pwm_freq_bit = RegisterBits chg_ctrl4_reg 1 5;
               d = snd (RegisterBits_write pwm_freq_bit (ucast (of_nat frequency :: 8 word)) d)
           in (True, d))"

definition getStatPinEnable :: "dev \<Rightarrow> bool" where
  "getStatPinEnable d =
     (let chg_ctrl4_reg = Register BQ25798_REG_CHARGER_CONTROL_4 1;
          dis_stat_bit = RegisterBits chg_ctrl4_reg 1 4
      in RegisterBits_read dis_stat_bit d = 0)"

definition setStatPinEnable :: "bool \<Rightarrow> dev \<Rightarrow> bool \<times> dev" where
  "setStatPinEnable enable d =
     (let chg_ctrl4_reg = Register BQ25798_REG_CHARGER_CONTROL_4 1;
          dis_stat_bit = RegisterBits chg_ctrl4_reg 1 4;
          d = snd (RegisterBits_write dis_stat_bit (if enable then 0 else 1) d)
      in (True, d))"

definition getVSYSshortProtect :: "dev \<Rightarrow> bool" where
  "getVSYSshortProtect d =
     (let chg_ctrl4_reg = Register BQ25798_REG_CHARGER_CONTROL_4 1;
          dis_vsys_short_bit = RegisterBits chg_ctrl4_reg 1 3
      in RegisterBits_read dis_vsys_short_bit d = 0)"

definition setVSYSshortProtect :: "bool \<Rightarrow> dev \<Rightarrow> bool \<times> dev" where
  "setVSYSshortProtect enable d =
     (let chg_ctrl4_reg = Register BQ25798_REG_CHARGER_CONTROL_4 1;
          dis_vsys_short_bit = RegisterBits chg_ctrl4_reg 1 3;
          d = snd (RegisterBits_write dis_vsys_short_bit (if enable then 0 else 1) d)
      in (True, d))"

definition getVOTG_UVPProtect :: "dev \<Rightarrow> bool" where
  "getVOTG_UVPProtect d =
     (let chg_ctrl4_reg = Register BQ25798_REG_CHARGER_CONTROL_4 1;
          dis_votg_uvp_bit = RegisterBits chg_ctrl4_reg 1 2
      in RegisterBits_read dis_votg_uvp_bit d = 0)"

definition setVOTG_UVPProtect :: "bool \<Rightarrow> dev \<Rightarrow> bool \<times> dev" where
  "setVOTG_UVPProtect enable d =
     (let chg_ctrl4_reg = Register BQ25798_REG_CHARGER_CONTROL_4 1;
          dis_votg_uvp_bit = RegisterBits chg_ctrl4_reg 1 2;
          d = snd (RegisterBits_write dis_votg_uvp_bit (if enable then 0 else 1) d)
      in (True, d))"

definition setVINDPMdetection :: "bool \<Rightarrow> dev \<Rightarrow> bool \<times> dev" where
  "setVINDPMdetection enable d =
     (let chg_ctrl4_reg = Register BQ25798_REG_CHARGER_CONTROL_4 1;
          force_vindpm_det_bit = RegisterBits chg_ctrl4_reg 1 1;
          d = snd (RegisterBits_write force_vindpm_det_bit (if enable then 1 else 0) d)
      in (True, d))"

definition setIBUS_OCPenable :: "bool \<Rightarrow> dev \<Rightarrow> bool \<times> dev" where
  "setIBUS_OCPenable enable d =
     (let chg_ctrl4_reg = Register BQ25798_REG_CHARGER_CONTROL_4 1;
          en_ibus_ocp_bit = RegisterBits chg_ctrl4_reg 1 0;
          d = snd (RegisterBits_write en_ibus_ocp_bit (if enable then 1 else 0) d)
      in (True, d))"

definition setShipFETpresent :: "bool \<Rightarrow> dev \<Rightarrow> bool \<times> dev" where
  "setShipFETpresent enable d =
     (let chg_ctrl5_reg = Register BQ25798_REG_CHARGER_CONTROL_5 1;
          sfet_present_bit = RegisterBits chg_ctrl5_reg 1 7;
          d = snd (RegisterBits_write sfet_present_bit (of_bool enable) d)
      in (True, d))"

definition setBatDischargeSenseEnable :: "bool \<Rightarrow> dev \<Rightarrow> bool \<times> dev" where
  "setBatDischargeSenseEnable enable d =
     (let chg_ctrl5_reg = Register BQ25798_REG_CHARGER_CONTROL_5 1;
          en_ibat_bit = RegisterBits chg_ctrl5_reg 1 5;
          d = snd (RegisterBits_write en_ibat_bit (of_bool enable) d)
      in (True, d))"

definition setBatDischargeA :: "nat \<Rightarrow> dev \<Rightarrow> bool \<times> dev" where
  "setBatDischargeA current d =
     (let chg_ctrl5_reg = Register BQ25798_REG_CHARGER_CONTROL_5 1;
          ibat_reg_bits = RegisterBits chg_ctrl5_reg 2 3;
          d = snd (RegisterBits_write ibat_reg_bits (ucast (of_nat current :: 8 word)) d)
      in (True, d))"

definition setIINDPMenable :: "bool \<Rightarrow> dev \<Rightarrow> bool \<times> dev" where
  "setIINDPMenable enable d =
     (let chg_ctrl5_reg = Register BQ25798_REG_CHARGER_CONTROL_5 1;
          en_iindpm_bit = RegisterBits chg_ctrl5_reg 1 2;
          d = snd (RegisterBits_write en_iindpm_bit (of_bool enable) d)
      in (True, d))"

definition setExtILIMpin :: "bool \<Rightarrow> dev \<Rightarrow> bool \<times> dev" where
  "setExtILIMpin enable d =
     (let chg_ctrl5_reg = Register BQ25798_REG_CHARGER_CONTROL_5 1;
          en_extilim_bit = RegisterBits chg_ctrl5_reg 1 1;
          d = snd (RegisterBits_write en_extilim_bit (of_bool enable) d)
      in (True, d))"

definition setBatDischargeOCPenable :: "bool \<Rightarrow> dev \<Rightarrow> bool \<times> dev" where
  "setBatDischargeOCPenable enable d =
     (let chg_ctrl5_reg = Register BQ25798_REG_CHARGER_CONTROL_5 1;
          en_batoc_bit = RegisterBits chg_ctrl5_reg 1 0;
          d = snd (RegisterBits_write en_batoc_bit (of_bool enable) d)
      in (True, d))"

definition setVINDPM_VOCpercent :: "nat \<Rightarrow> dev \<Rightarrow> bool \<times> dev" where
  "setVINDPM_VOCpercent percentage d =
     (let mppt_ctrl_reg = Register BQ25798_REG_MPPT_CONTROL 1;
          voc_pct_bits = RegisterBits mppt_ctrl_reg 3 5;
          d = snd (RegisterBits_write voc_pct_bits (ucast (of_nat percentage :: 8 word)) d)
      in (True, d))"

definition setVOCdelay :: "nat \<Rightarrow> dev \<Rightarrow> bool \<times> dev" where
  "setVOCdelay delay d =
     (let mppt_ctrl_reg = Register BQ25798_REG_MPPT_CONTROL 1;
          voc_dly_bits = RegisterBits mppt_ctrl_reg 2 3;
          d = snd (RegisterBits_write voc_dly_bits (ucast (of_nat delay :: 8 word)) d)
      in (True, d))"

definition setVOCrate :: "nat \<Rightarrow> dev \<Rightarrow> bool \<times> dev" where
  "setVOCrate rate d =
     (let mppt_ctrl_reg = Register BQ25798_REG_MPPT_CONTROL 1;
          voc_rate_bits = RegisterBits mppt_ctrl_reg 2 1;
          d = snd (RegisterBits_write voc_rate_bits (ucast (of_nat rate :: 8 word)) d)
      in (True, d))"

definition setMPPTenable :: "bool \<Rightarrow> dev \<Rightarrow> bool \<times> dev" where
  "setMPPTenable enable d =
     (let mppt_ctrl_reg = Register BQ25798_REG_MPPT_CONTROL 1;
          en_mppt_bit = RegisterBits mppt_ctrl_reg 1 0;
          d = snd (RegisterBits_write en_mppt_bit (of_bool enable) d)
      in (True, d))"

definition setThermRegulationThresh :: "nat \<Rightarrow> dev \<Rightarrow> bool \<times> dev" where
  "setThermRegulationThresh threshold d =
     (let temp_ctrl_reg = Register BQ25798_REG_TEMPERATURE_CONTROL 1;
          treg_bits = RegisterBits temp_ctrl_reg 2 6;
          d = snd (RegisterBits_write treg_bits (ucast (of_nat threshold :: 8 word)) d)
      in (True, d))"

definition setThermShutdownThresh :: "nat \<Rightarrow> dev \<Rightarrow> bool \<times> dev" where
  "setThermShutdownThresh threshold d =
     (let temp_ctrl_reg = Register BQ25798_REG_TEMPERATURE_CONTROL 1;
          tshut_bits = RegisterBits temp_ctrl_reg 2 4;
          d = snd (RegisterBits_write tshut_bits (ucast (of_nat threshold :: 8 word)) d)
      in (True, d))"

definition setVBUSpulldown :: "bool \<Rightarrow> dev \<Rightarrow> bool \<times> dev" where
  "setVBUSpulldown enable d =
     (let temp_ctrl_reg = Register BQ25798_REG_TEMPERATURE_CONTROL 1;
          vbus_pd_bit = RegisterBits temp_ctrl_reg 1 3;
          d = snd (RegisterBits_write vbus_pd_bit (of_bool enable) d)
      in (True, d))"

definition setVAC1pulldown :: "bool \<Rightarrow> dev \<Rightarrow> bool \<times> dev" where
  "setVAC1pulldown enable d =
     (let temp_ctrl_reg = Register BQ25798_REG_TEMPERATURE_CONTROL 1;
          vac1_pd_bit = RegisterBits temp_ctrl_reg 1 2;
          d = snd (RegisterBits_write vac1_pd_bit (of_bool enable) d)
      in (True, d))"

definition setVAC2pulldown :: "bool \<Rightarrow> dev \<Rightarrow> bool \<times> dev" where
  "setVAC2pulldown enable d =
     (let temp_ctrl_reg = Register BQ25798_REG_TEMPERATURE_CONTROL 1;
          vac2_pd_bit = RegisterBits temp_ctrl_reg 1 1;
          d = snd (RegisterBits_write vac2_pd_bit (of_bool enable) d)
      in (True, d))"

definition setBackupACFET1on :: "bool \<Rightarrow> dev \<Rightarrow> bool \<times> dev" where
  "setBackupACFET1on enable d =
     (let temp_ctrl_reg = Register BQ25798_REG_TEMPERATURE_CONTROL 1;
          bkup_acfet1_bit = RegisterBits temp_ctrl_reg 1 0;
          d = snd (RegisterBits_write bkup_acfet1_bit (of_bool enable) d)
      in (True, d))"

definition reset :: "dev \<Rightarrow> bool \<times> dev" where
  "reset d =
     (let term_reg = Register BQ25798_REG_TERMINATION_CONTROL 1;
          reg_rst_bit = RegisterBits term_reg 1 6;
          d = snd (RegisterBits_write reg_rst_bit 1 d)
      in (True, d))"

subsection \<open>Initialisation\<close>

text \<open>
  \<^verbatim>\<open>begin(i2c_addr, wire)\<close> binds the handle to the chip at that address of that
  bus; the model takes the chip the two arguments select. Releasing an earlier handle
  and allocating the new one do not touch the chip.
\<close>

definition begin_BQ25798 :: "dev \<Rightarrow> bool \<times> dev" where
  "begin_BQ25798 d =
     (if \<not> I2CDevice_begin d then (False, d)
      else let part_info_reg = Register BQ25798_REG_PART_INFORMATION 1;
               part_info = (ucast (Register_read part_info_reg d) :: 8 word)
           in if part_info AND 0x38 \<noteq> 0x18 then (False, d)
              else let d = snd (reset d) in (True, d))"

section \<open>The settings as a table\<close>

text \<open>
  The accessors come in four shapes. Each shape gets a type that enumerates its
  settings, the setter (and, where a property needs it, the getter) of each setting,
  and the bit-field the accessor's code builds.
\<close>

subsection \<open>Linear settings\<close>

datatype linear_setting =
    MinSystemV
  | ChargeLimitV
  | ChargeLimitA
  | InputLimitV
  | InputLimitA
  | PrechargeLimitA
  | TerminationA
  | RechargeThreshOffsetV
  | OTGV
  | OTGLimitA

fun set_linear :: "linear_setting \<Rightarrow> f32 \<Rightarrow> dev \<Rightarrow> (bool \<times> dev) option" where
  "set_linear MinSystemV = setMinSystemV"
| "set_linear ChargeLimitV = setChargeLimitV"
| "set_linear ChargeLimitA = setChargeLimitA"
| "set_linear InputLimitV = setInputLimitV"
| "set_linear InputLimitA = setInputLimitA"
| "set_linear PrechargeLimitA = setPrechargeLimitA"
| "set_linear TerminationA = setTerminationA"
| "set_linear RechargeThreshOffsetV = setRechargeThreshOffsetV"
| "set_linear OTGV = setOTGV"
| "set_linear OTGLimitA = setOTGLimitA"

fun get_linear :: "linear_setting \<Rightarrow> dev \<Rightarrow> f32" where
  "get_linear MinSystemV = getMinSystemV"
| "get_linear ChargeLimitV = getChargeLimitV"
| "get_linear ChargeLimitA = getChargeLimitA"
| "get_linear InputLimitV = getInputLimitV"
| "get_linear InputLimitA = getInputLimitA"
| "get_linear PrechargeLimitA = getPrechargeLimitA"
| "get_linear TerminationA = getTerminationA"
| "get_linear RechargeThreshOffsetV = getRechargeThreshOffsetV"
| "get_linear OTGV = getOTGV"
| "get_linear OTGLimitA = getOTGLimitA"

definition linear_settings :: "linear_setting list" where
  "linear_settings = [MinSystemV, ChargeLimitV, ChargeLimitA, InputLimitV, InputLimitA,
     PrechargeLimitA, TerminationA, RechargeThreshOffsetV, OTGV, OTGLimitA]"

text \<open>
  The constants of each pair, as the code writes them: the two bounds of the range
  check, the divisor of the conversion (one encoding step) and the bias.
\<close>

fun minValue :: "linear_setting \<Rightarrow> rat" where
  "minValue MinSystemV = 25 / 10"
| "minValue ChargeLimitV = 3"
| "minValue ChargeLimitA = 5 / 100"
| "minValue InputLimitV = 36 / 10"
| "minValue InputLimitA = 1 / 10"
| "minValue PrechargeLimitA = 4 / 100"
| "minValue TerminationA = 4 / 100"
| "minValue RechargeThreshOffsetV = 5 / 100"
| "minValue OTGV = 28 / 10"
| "minValue OTGLimitA = 16 / 100"

fun maxValue :: "linear_setting \<Rightarrow> rat" where
  "maxValue MinSystemV = 16"
| "maxValue ChargeLimitV = 188 / 10"
| "maxValue ChargeLimitA = 5"
| "maxValue InputLimitV = 22"
| "maxValue InputLimitA = 33 / 10"
| "maxValue PrechargeLimitA = 2"
| "maxValue TerminationA = 1"
| "maxValue RechargeThreshOffsetV = 8 / 10"
| "maxValue OTGV = 22"
| "maxValue OTGLimitA = 336 / 100"

fun scale :: "linear_setting \<Rightarrow> rat" where
  "scale MinSystemV = 25 / 100"
| "scale ChargeLimitV = 1 / 100"
| "scale ChargeLimitA = 1 / 100"
| "scale InputLimitV = 1 / 10"
| "scale InputLimitA = 1 / 100"
| "scale PrechargeLimitA = 4 / 100"
| "scale TerminationA = 4 / 100"
| "scale RechargeThreshOffsetV = 5 / 100"
| "scale OTGV = 1 / 100"
| "scale OTGLimitA = 4 / 100"

fun offset :: "linear_setting \<Rightarrow> rat" where
  "offset MinSystemV = 25 / 10"
| "offset ChargeLimitV = 0"
| "offset ChargeLimitA = 0"
| "offset InputLimitV = 0"
| "offset InputLimitA = 0"
| "offset PrechargeLimitA = 0"
| "offset TerminationA = 0"
| "offset RechargeThreshOffsetV = 5 / 100"
| "offset OTGV = 28 / 10"
| "offset OTGLimitA = 0"

fun linear_field :: "linear_setting \<Rightarrow> Adafruit_BusIO_RegisterBits" where
  "linear_field MinSystemV = RegisterBits (Register BQ25798_REG_MINIMAL_SYSTEM_VOLTAGE 1) 6 0"
| "linear_field ChargeLimitV = RegisterBits (Register BQ25798_REG_CHARGE_VOLTAGE_LIMIT 2) 11 0"
| "linear_field ChargeLimitA = RegisterBits (Register BQ25798_REG_CHARGE_CURRENT_LIMIT 2) 9 0"
| "linear_field InputLimitV = RegisterBits (Register BQ25798_REG_INPUT_VOLTAGE_LIMIT 1) 8 0"
| "linear_field InputLimitA = RegisterBits (Register BQ25798_REG_INPUT_CURRENT_LIMIT 2) 9 0"
| "linear_field PrechargeLimitA = RegisterBits (Register BQ25798_REG_PRECHARGE_CONTROL 1) 6 0"
| "linear_field TerminationA = RegisterBits (Register BQ25798_REG_TERMINATION_CONTROL 1) 5 0"
| "linear_field RechargeThreshOffsetV = RegisterBits (Register BQ25798_REG_RECHARGE_CONTROL 1) 4 0"
| "linear_field OTGV = RegisterBits (Register BQ25798_REG_VOTG_REGULATION 2) 11 0"
| "linear_field OTGLimitA = RegisterBits (Register BQ25798_REG_IOTG_REGULATION 1) 7 0"

text \<open>
  The ceiling of the clamp that each setter applies to the converted value, and whether
  the setter holds the value in a \<^verbatim>\<open>uint16_t\<close> (otherwise a \<^verbatim>\<open>uint8_t\<close>).
\<close>

fun rawMax :: "linear_setting \<Rightarrow> nat" where
  "rawMax MinSystemV = 63"
| "rawMax ChargeLimitV = 2047"
| "rawMax ChargeLimitA = 511"
| "rawMax InputLimitV = 255"
| "rawMax InputLimitA = 511"
| "rawMax PrechargeLimitA = 63"
| "rawMax TerminationA = 31"
| "rawMax RechargeThreshOffsetV = 15"
| "rawMax OTGV = 2047"
| "rawMax OTGLimitA = 127"

fun wide :: "linear_setting \<Rightarrow> bool" where
  "wide MinSystemV = False"
| "wide ChargeLimitV = True"
| "wide ChargeLimitA = True"
| "wide InputLimitV = False"
| "wide InputLimitA = True"
| "wide PrechargeLimitA = False"
| "wide TerminationA = False"
| "wide RechargeThreshOffsetV = False"
| "wide OTGV = True"
| "wide OTGLimitA = False"

text \<open>
  The register value a linear setter computes from an input it has validated: the
  input less the bias, divided by the step, converted to the integer type, clamped.
  Setters without a bias do not subtract.
\<close>

definition raw_value :: "linear_setting \<Rightarrow> f32 \<Rightarrow> 32 word option" where
  "raw_value s v =
     (let x = (if offset s = 0 then v else f32_sub v (f32_lit (offset s)));
          q = f32_div x (f32_lit (scale s))
      in if wide s
         then map_option (\<lambda>r. ucast (min r (of_nat (rawMax s)))) (f32_to_uint16 q)
         else map_option (\<lambda>r. ucast (min r (of_nat (rawMax s)))) (f32_to_uint8 q))"

subsection \<open>Enumerated settings\<close>

datatype enum_setting =
    VBatLowV
  | CellCount
  | RechargeDeglitchTime
  | PrechargeTimer
  | TopOffTimer
  | FastChargeTimer
  | BackupModeThresh
  | VACOVP
  | WDT
  | ShipFETmode
  | ShipWakeupDelay
  | PWMFrequency
  | BatDischargeA
  | VINDPM_VOCpercent
  | VOCdelay
  | VOCrate
  | ThermRegulationThresh
  | ThermShutdownThresh

fun set_enum :: "header \<Rightarrow> enum_setting \<Rightarrow> nat \<Rightarrow> dev \<Rightarrow> bool \<times> dev" where
  "set_enum h VBatLowV = setVBatLowV h"
| "set_enum h CellCount = setCellCount h"
| "set_enum h RechargeDeglitchTime = setRechargeDeglitchTime h"
| "set_enum h PrechargeTimer = setPrechargeTimer h"
| "set_enum h TopOffTimer = setTopOffTimer h"
| "set_enum h FastChargeTimer = setFastChargeTimer h"
| "set_enum h BackupModeThresh = setBackupModeThresh h"
| "set_enum h VACOVP = setVACOVP h"
| "set_enum h WDT = setWDT h"
| "set_enum h ShipFETmode = setShipFETmode h"
| "set_enum h ShipWakeupDelay = setShipWakeupDelay h"
| "set_enum h PWMFrequency = setPWMFrequency h"
| "set_enum h BatDischargeA = setBatDischargeA"
| "set_enum h VINDPM_VOCpercent = setVINDPM_VOCpercent"
| "set_enum h VOCdelay = setVOCdelay"
| "set_enum h VOCrate = setVOCrate"
| "set_enum h ThermRegulationThresh = setThermRegulationThresh"
| "set_enum h ThermShutdownThresh = setThermShutdownThresh"

fun enum_field :: "enum_setting \<Rightarrow> Adafruit_BusIO_RegisterBits" where
  "enum_field VBatLowV = RegisterBits (Register BQ25798_REG_PRECHARGE_CONTROL 1) 2 6"
| "enum_field CellCount = RegisterBits (Register BQ25798_REG_RECHARGE_CONTROL 1) 2 6"
| "enum_field RechargeDeglitchTime = RegisterBits (Register BQ25798_REG_RECHARGE_CONTROL 1) 2 4"
| "enum_field PrechargeTimer = RegisterBits (Register BQ25798_REG_IOTG_REGULATION 1) 1 7"
| "enum_field TopOffTimer = RegisterBits (Register BQ25798_REG_TIMER_CONTROL 1) 2 6"
| "enum_field FastChargeTimer = RegisterBits (Register BQ25798_REG_TIMER_CONTROL 1) 2 1"
| "enum_field BackupModeThresh = RegisterBits (Register BQ25798_REG_CHARGER_CONTROL_1 1) 2 6"
| "enum_field VACOVP = RegisterBits (Register BQ25798_REG_CHARGER_CONTROL_1 1) 2 4"
| "enum_field WDT = RegisterBits (Register BQ25798_REG_CHARGER_CONTROL_1 1) 3 0"
| "enum_field ShipFETmode = RegisterBits (Register BQ25798_REG_CHARGER_CONTROL_2 1) 2 1"
| "enum_field ShipWakeupDelay = RegisterBits (Register BQ25798_REG_CHARGER_CONTROL_3 1) 1 3"
| "enum_field PWMFrequency = RegisterBits (Register BQ25798_REG_CHARGER_CONTROL_4 1) 1 5"
| "enum_field BatDischargeA = RegisterBits (Register BQ25798_REG_CHARGER_CONTROL_5 1) 2 3"
| "enum_field VINDPM_VOCpercent = RegisterBits (Register BQ25798_REG_MPPT_CONTROL 1) 3 5"
| "enum_field VOCdelay = RegisterBits (Register BQ25798_REG_MPPT_CONTROL 1) 2 3"
| "enum_field VOCrate = RegisterBits (Register BQ25798_REG_MPPT_CONTROL 1) 2 1"
| "enum_field ThermRegulationThresh = RegisterBits (Register BQ25798_REG_TEMPERATURE_CONTROL 1) 2 6"
| "enum_field ThermShutdownThresh = RegisterBits (Register BQ25798_REG_TEMPERATURE_CONTROL 1) 2 4"

text \<open>The enumerator a setter compares the ordinal against, for the setters that compare.\<close>

fun enum_max :: "header \<Rightarrow> enum_setting \<Rightarrow> nat option" where
  "enum_max h VBatLowV = Some (BQ25798_VBAT_LOWV_71_4_PERCENT h)"
| "enum_max h CellCount = Some (BQ25798_CELL_COUNT_4S h)"
| "enum_max h RechargeDeglitchTime = Some (BQ25798_TRECHG_2048MS h)"
| "enum_max h PrechargeTimer = Some (BQ25798_PRECHG_TMR_0_5HR h)"
| "enum_max h TopOffTimer = Some (BQ25798_TOPOFF_TMR_45MIN h)"
| "enum_max h FastChargeTimer = Some (BQ25798_CHG_TMR_24HR h)"
| "enum_max h BackupModeThresh = Some (BQ25798_VBUS_BACKUP_100_PERCENT h)"
| "enum_max h VACOVP = Some (BQ25798_VAC_OVP_7V h)"
| "enum_max h WDT = Some (BQ25798_WDT_160S h)"
| "enum_max h ShipFETmode = Some (BQ25798_SDRV_SYSTEM_RESET h)"
| "enum_max h ShipWakeupDelay = Some (BQ25798_WKUP_DLY_15MS h)"
| "enum_max h PWMFrequency = Some (BQ25798_PWM_FREQ_750KHZ h)"
| "enum_max h _ = None"

subsection \<open>Flags\<close>

datatype flag =
    StopOnWDT
  | TrickleChargeTimerEnable
  | PrechargeTimerEnable
  | FastChargeTimerEnable
  | TimerHalfRateEnable
  | AutoOVPBattDischarge
  | ForceBattDischarge
  | ChargeEnable
  | ICOEnable
  | ForceICO
  | HIZMode
  | TerminationEnable
  | BackupModeEnable
  | ForceDPinsDetection
  | AutoDPinsDetection
  | HVDCP12VEnable
  | HVDCP9VEnable
  | HVDCPEnable
  | ShipFET10sDelay
  | OTGenable
  | ACDRV2enable
  | ACDRV1enable
  | VINDPMdetection
  | IBUS_OCPenable
  | ShipFETpresent
  | BatDischargeSenseEnable
  | IINDPMenable
  | ExtILIMpin
  | BatDischargeOCPenable
  | MPPTenable
  | VBUSpulldown
  | VAC1pulldown
  | VAC2pulldown
  | BackupACFET1on

fun set_flag :: "flag \<Rightarrow> bool \<Rightarrow> dev \<Rightarrow> bool \<times> dev" where
  "set_flag StopOnWDT = setStopOnWDT"
| "set_flag TrickleChargeTimerEnable = setTrickleChargeTimerEnable"
| "set_flag PrechargeTimerEnable = setPrechargeTimerEnable"
| "set_flag FastChargeTimerEnable = setFastChargeTimerEnable"
| "set_flag TimerHalfRateEnable = setTimerHalfRateEnable"
| "set_flag AutoOVPBattDischarge = setAutoOVPBattDischarge"
| "set_flag ForceBattDischarge = setForceBattDischarge"
| "set_flag ChargeEnable = setChargeEnable"
| "set_flag ICOEnable = setICOEnable"
| "set_flag ForceICO = setForceICO"
| "set_flag HIZMode = setHIZMode"
| "set_flag TerminationEnable = setTerminationEnable"
| "set_flag BackupModeEnable = setBackupModeEnable"
| "set_flag ForceDPinsDetection = setForceDPinsDetection"
| "set_flag AutoDPinsDetection = setAutoDPinsDetection"
| "set_flag HVDCP12VEnable = setHVDCP12VEnable"
| "set_flag HVDCP9VEnable = setHVDCP9VEnable"
| "set_flag HVDCPEnable = setHVDCPEnable"
| "set_flag ShipFET10sDelay = setShipFET10sDelay"
| "set_flag OTGenable = setOTGenable"
| "set_flag ACDRV2enable = setACDRV2enable"
| "set_flag ACDRV1enable = setACDRV1enable"
| "set_flag VINDPMdetection = setVINDPMdetection"
| "set_flag IBUS_OCPenable = setIBUS_OCPenable"
| "set_flag ShipFETpresent = setShipFETpresent"
| "set_flag BatDischargeSenseEnable = setBatDischargeSenseEnable"
| "set_flag IINDPMenable = setIINDPMenable"
| "set_flag ExtILIMpin = setExtILIMpin"
| "set_flag BatDischargeOCPenable = setBatDischargeOCPenable"
| "set_flag MPPTenable = setMPPTenable"
| "set_flag VBUSpulldown = setVBUSpulldown"
| "set_flag VAC1pulldown = setVAC1pulldown"
| "set_flag VAC2pulldown = setVAC2pulldown"
| "set_flag BackupACFET1on = setBackupACFET1on"

fun flag_field :: "flag \<Rightarrow> Adafruit_BusIO_RegisterBits" where
  "flag_field StopOnWDT = RegisterBits (Register BQ25798_REG_TERMINATION_CONTROL 1) 1 5"
| "flag_field TrickleChargeTimerEnable = RegisterBits (Register BQ25798_REG_TIMER_CONTROL 1) 1 5"
| "flag_field PrechargeTimerEnable = RegisterBits (Register BQ25798_REG_TIMER_CONTROL 1) 1 4"
| "flag_field FastChargeTimerEnable = RegisterBits (Register BQ25798_REG_TIMER_CONTROL 1) 1 3"
| "flag_field TimerHalfRateEnable = RegisterBits (Register BQ25798_REG_TIMER_CONTROL 1) 1 0"
| "flag_field AutoOVPBattDischarge = RegisterBits (Register BQ25798_REG_CHARGER_CONTROL_0 1) 1 7"
| "flag_field ForceBattDischarge = RegisterBits (Register BQ25798_REG_CHARGER_CONTROL_0 1) 1 6"
| "flag_field ChargeEnable = RegisterBits (Register BQ25798_REG_CHARGER_CONTROL_0 1) 1 5"
| "flag_field ICOEnable = RegisterBits (Register BQ25798_REG_CHARGER_CONTROL_0 1) 1 4"
| "flag_field ForceICO = RegisterBits (Register BQ25798_REG_CHARGER_CONTROL_0 1) 1 3"
| "flag_field HIZMode = RegisterBits (Register BQ25798_REG_CHARGER_CONTROL_0 1) 1 2"
| "flag_field TerminationEnable = RegisterBits (Register BQ25798_REG_CHARGER_CONTROL_0 1) 1 1"
| "flag_field BackupModeEnable = RegisterBits (Register BQ25798_REG_CHARGER_CONTROL_0 1) 1 0"
| "flag_field ForceDPinsDetection = RegisterBits (Register BQ25798_REG_CHARGER_CONTROL_2 1) 1 7"
| "flag_field AutoDPinsDetection = RegisterBits (Register BQ25798_REG_CHARGER_CONTROL_2 1) 1 6"
| "flag_field HVDCP12VEnable = RegisterBits (Register BQ25798_REG_CHARGER_CONTROL_2 1) 1 5"
| "flag_field HVDCP9VEnable = RegisterBits (Register BQ25798_REG_CHARGER_CONTROL_2 1) 1 4"
| "flag_field HVDCPEnable = RegisterBits (Register BQ25798_REG_CHARGER_CONTROL_2 1) 1 3"
| "flag_field ShipFET10sDelay = RegisterBits (Register BQ25798_REG_CHARGER_CONTROL_2 1) 1 0"
| "flag_field OTGenable = RegisterBits (Register BQ25798_REG_CHARGER_CONTROL_3 1) 1 6"
| "flag_field ACDRV2enable = RegisterBits (Register BQ25798_REG_CHARGER_CONTROL_4 1) 1 7"
| "flag_field ACDRV1enable = RegisterBits (Register BQ25798_REG_CHARGER_CONTROL_4 1) 1 6"
| "flag_field VINDPMdetection = RegisterBits (Register BQ25798_REG_CHARGER_CONTROL_4 1) 1 1"
| "flag_field IBUS_OCPenable = RegisterBits (Register BQ25798_REG_CHARGER_CONTROL_4 1) 1 0"
| "flag_field ShipFETpresent = RegisterBits (Register BQ25798_REG_CHARGER_CONTROL_5 1) 1 7"
| "flag_field BatDischargeSenseEnable = RegisterBits (Register BQ25798_REG_CHARGER_CONTROL_5 1) 1 5"
| "flag_field IINDPMenable = RegisterBits (Register BQ25798_REG_CHARGER_CONTROL_5 1) 1 2"
| "flag_field ExtILIMpin = RegisterBits (Register BQ25798_REG_CHARGER_CONTROL_5 1) 1 1"
| "flag_field BatDischargeOCPenable = RegisterBits (Register BQ25798_REG_CHARGER_CONTROL_5 1) 1 0"
| "flag_field MPPTenable = RegisterBits (Register BQ25798_REG_MPPT_CONTROL 1) 1 0"
| "flag_field VBUSpulldown = RegisterBits (Register BQ25798_REG_TEMPERATURE_CONTROL 1) 1 3"
| "flag_field VAC1pulldown = RegisterBits (Register BQ25798_REG_TEMPERATURE_CONTROL 1) 1 2"
| "flag_field VAC2pulldown = RegisterBits (Register BQ25798_REG_TEMPERATURE_CONTROL 1) 1 1"
| "flag_field BackupACFET1on = RegisterBits (Register BQ25798_REG_TEMPERATURE_CONTROL 1) 1 0"

subsection \<open>Flags that the chip stores inverted\<close>

datatype inverted_flag =
    ACenable
  | OTGPFM
  | ForwardPFM
  | BATFETLDOprecharge
  | OTGOOA
  | ForwardOOA
  | StatPinEnable
  | VSYSshortProtect
  | VOTG_UVPProtect

fun set_inverted :: "inverted_flag \<Rightarrow> bool \<Rightarrow> dev \<Rightarrow> bool \<times> dev" where
  "set_inverted ACenable = setACenable"
| "set_inverted OTGPFM = setOTGPFM"
| "set_inverted ForwardPFM = setForwardPFM"
| "set_inverted BATFETLDOprecharge = setBATFETLDOprecharge"
| "set_inverted OTGOOA = setOTGOOA"
| "set_inverted ForwardOOA = setForwardOOA"
| "set_inverted StatPinEnable = setStatPinEnable"
| "set_inverted VSYSshortProtect = setVSYSshortProtect"
| "set_inverted VOTG_UVPProtect = setVOTG_UVPProtect"

fun get_inverted :: "inverted_flag \<Rightarrow> dev \<Rightarrow> bool" where
  "get_inverted ACenable = getACenable"
| "get_inverted OTGPFM = getOTGPFM"
| "get_inverted ForwardPFM = getForwardPFM"
| "get_inverted BATFETLDOprecharge = getBATFETLDOprecharge"
| "get_inverted OTGOOA = getOTGOOA"
| "get_inverted ForwardOOA = getForwardOOA"
| "get_inverted StatPinEnable = getStatPinEnable"
| "get_inverted VSYSshortProtect = getVSYSshortProtect"
| "get_inverted VOTG_UVPProtect = getVOTG_UVPProtect"

fun inverted_field :: "inverted_flag \<Rightarrow> Adafruit_BusIO_RegisterBits" where
  "inverted_field ACenable = RegisterBits (Register BQ25798_REG_CHARGER_CONTROL_3 1) 1 7"
| "inverted_field OTGPFM = RegisterBits (Register BQ25798_REG_CHARGER_CONTROL_3 1) 1 5"
| "inverted_field ForwardPFM = RegisterBits (Register BQ25798_REG_CHARGER_CONTROL_3 1) 1 4"
| "inverted_field BATFETLDOprecharge = RegisterBits (Register BQ25798_REG_CHARGER_CONTROL_3 1) 1 2"
| "inverted_field OTGOOA = RegisterBits (Register BQ25798_REG_CHARGER_CONTROL_3 1) 1 1"
| "inverted_field ForwardOOA = RegisterBits (Register BQ25798_REG_CHARGER_CONTROL_3 1) 1 0"
| "inverted_field StatPinEnable = RegisterBits (Register BQ25798_REG_CHARGER_CONTROL_4 1) 1 4"
| "inverted_field VSYSshortProtect = RegisterBits (Register BQ25798_REG_CHARGER_CONTROL_4 1) 1 3"
| "inverted_field VOTG_UVPProtect = RegisterBits (Register BQ25798_REG_CHARGER_CONTROL_4 1) 1 2"

subsection \<open>Every call that writes\<close>

datatype setter_call =
    Linear linear_setting f32
  | Enumerated enum_setting nat
  | Flag flag bool
  | Inverted inverted_flag bool
  | ResetWDT
  | Reset

fun run :: "header \<Rightarrow> setter_call \<Rightarrow> dev \<Rightarrow> (bool \<times> dev) option" where
  "run h (Linear s v) d = set_linear s v d"
| "run h (Enumerated s v) d = Some (set_enum h s v d)"
| "run h (Flag s v) d = Some (set_flag s v d)"
| "run h (Inverted s v) d = Some (set_inverted s v d)"
| "run h ResetWDT d = Some (resetWDT d)"
| "run h Reset d = Some (reset d)"

fun target :: "setter_call \<Rightarrow> Adafruit_BusIO_RegisterBits" where
  "target (Linear s v) = linear_field s"
| "target (Enumerated s v) = enum_field s"
| "target (Flag s v) = flag_field s"
| "target (Inverted s v) = inverted_field s"
| "target ResetWDT = RegisterBits (Register BQ25798_REG_CHARGER_CONTROL_1 1) 1 3"
| "target Reset = RegisterBits (Register BQ25798_REG_TERMINATION_CONTROL 1) 1 6"

text \<open>
  The value a call hands to the write of its bit-field, that is the argument of
  \<^verbatim>\<open>write\<close> in the body of the setter: the clamped register value for a linear
  setter, the ordinal cast to \<^verbatim>\<open>uint8_t\<close> for an enumerated setter, \<open>1\<close> or \<open>0\<close> for a
  flag, \<open>1\<close> for the two actions. There is none when the setter returns before the write
  or the conversion of the input is undefined.
\<close>

definition written_raw :: "header \<Rightarrow> setter_call \<Rightarrow> 32 word option" where
  "written_raw h c =
     (case c of
        Linear s v \<Rightarrow>
          if f32_less v (f32_lit (minValue s)) \<or> f32_greater v (f32_lit (maxValue s)) then None
          else raw_value s v
      | Enumerated s x \<Rightarrow>
          if (case enum_max h s of None \<Rightarrow> False | Some m \<Rightarrow> x > m) then None
          else Some (ucast (of_nat x :: 8 word))
      | Flag f b \<Rightarrow> Some (of_bool b)
      | Inverted f b \<Rightarrow> Some (of_bool (\<not> b))
      | ResetWDT \<Rightarrow> Some 1
      | Reset \<Rightarrow> Some 1)"

subsection \<open>Sample chips\<close>

text \<open>
  A chip that answers, with the pattern \<open>0xA5\<close> in every register; a chip that does not
  answer; a chip whose part information register carries the part number \<open>011\<close>; a chip
  with every bit of every register set; and a header whose last enumerators are the
  largest values of their bit-fields.
\<close>

definition chip0 :: dev where
  "chip0 = \<lparr>acks = True, regs = (\<lambda>_. 0xA5), failed_read = 0xFFFFFFFF, bus_writes = []\<rparr>"

definition silent_chip :: dev where
  "silent_chip = \<lparr>acks = False, regs = (\<lambda>_. 0xA5), failed_read = 0xFFFFFFFF, bus_writes = []\<rparr>"

definition genuine_chip :: dev where
  "genuine_chip = \<lparr>acks = True, regs = (\<lambda>_. 0x18), failed_read = 0xFFFFFFFF, bus_writes = []\<rparr>"

definition saturated_chip :: dev where
  "saturated_chip = \<lparr>acks = True, regs = (\<lambda>_. 0xFF), failed_read = 0xFFFFFFFF, bus_writes = []\<rparr>"

definition header0 :: header where
  "header0 = \<lparr>BQ25798_VBAT_LOWV_71_4_PERCENT = 3, BQ25798_CELL_COUNT_4S = 3,
     BQ25798_TRECHG_2048MS = 3, BQ25798_PRECHG_TMR_0_5HR = 1, BQ25798_TOPOFF_TMR_45MIN = 3,
     BQ25798_CHG_TMR_24HR = 3, BQ25798_VBUS_BACKUP_100_PERCENT = 3, BQ25798_VAC_OVP_7V = 3,
     BQ25798_WDT_160S = 7, BQ25798_SDRV_SYSTEM_RESET = 3, BQ25798_WKUP_DLY_15MS = 1,
     BQ25798_PWM_FREQ_750KHZ = 1\<rparr>"

section \<open>Bit-field writes\<close>

lemma Register_write_simps:
  "bus_writes (snd (Register_write (Register a w) v d)) = bus_writes d @ [(a, take_bit (8 * w) v)]"
  "acks (snd (Register_write (Register a w) v d)) = acks d"
  "failed_read (snd (Register_write (Register a w) v d)) = failed_read d"
  "regs (snd (Register_write (Register a w) v d)) = (if acks d then (regs d)(a := take_bit (8 * w) v) else regs d)"
  "fst (Register_write (Register a w) v d) = acks d"
  by (simp_all add: Register_write_def Let_def)

lemma RegisterBits_write_value:
  "RegisterBits_write (RegisterBits R bits shift) data d =
     Register_write R ((Register_read R d AND NOT (push_bit shift (mask bits))) OR push_bit shift (data AND mask bits)) d"
  by (simp add: RegisterBits_write_def Let_def)

lemma merged_bit:
  fixes val data :: "32 word"
  shows "bit ((val AND NOT (push_bit shift (mask bits))) OR push_bit shift (data AND mask bits)) i
         = (if shift \<le> i \<and> i < shift + bits then i < 32 \<and> bit data (i - shift) else bit val i)"
  by (auto simp add: bit_simps dest: bit_imp_le_length)

lemma Register_read_after_write:
  "Register_read (Register a w) (snd (Register_write (Register a w) v d)) =
     (if acks d then take_bit (8 * w) v else failed_read d)"
  by (simp add: Register_read_def Register_write_simps)

lemma Register_read_bit_width:
  "acks d \<Longrightarrow> bit (Register_read (Register a w) d) i \<Longrightarrow> i < 8 * w"
  by (simp add: Register_read_def bit_simps)

lemma field_frame:
  assumes "i < shift \<or> shift + bits \<le> i"
  shows "bit (Register_read R (snd (RegisterBits_write (RegisterBits R bits shift) data d))) i
         = bit (Register_read R d) i"
proof (cases R)
  case (Register a w)
  define X where "X = (Register_read (Register a w) d AND NOT (push_bit shift (mask bits)))
                        OR push_bit shift (data AND mask bits)"
  show ?thesis
  proof (cases "acks d")
    case True
    have rd: "Register_read (Register a w)
                (snd (RegisterBits_write (RegisterBits (Register a w) bits shift) data d))
              = take_bit (8 * w) X"
      using True by (simp add: RegisterBits_write_value Register_read_after_write X_def)
    have "bit (take_bit (8 * w) X) i = (i < 8 * w \<and> bit X i)"
      by (rule bit_take_bit_iff)
    also have "\<dots> = (i < 8 * w \<and> bit (Register_read (Register a w) d) i)"
      unfolding X_def merged_bit using assms by auto
    also have "\<dots> = bit (Register_read (Register a w) d) i"
      using Register_read_bit_width [OF True] by blast
    finally show ?thesis
      by (simp only: Register rd)
  next
    case False
    then show ?thesis
      by (simp add: Register RegisterBits_write_value Register_read_after_write)
        (simp add: Register_read_def)
  qed
qed

lemma extract_bit:
  fixes X :: "32 word"
  shows "bit (drop_bit s (take_bit n X) AND mask b) i = (i < b \<and> s + i < n \<and> bit X (s + i))"
  by (auto simp add: bit_simps dest: bit_imp_le_length)

lemma field_readback:
  assumes "acks d" and "shift + bits \<le> 8 * w" and "shift + bits \<le> 32"
  shows "RegisterBits_read (RegisterBits (Register a w) bits shift)
           (snd (RegisterBits_write (RegisterBits (Register a w) bits shift) data d))
         = data AND mask bits"
proof -
  define X where "X = (Register_read (Register a w) d AND NOT (push_bit shift (mask bits)))
                        OR push_bit shift (data AND mask bits)"
  have rd: "RegisterBits_read (RegisterBits (Register a w) bits shift)
           (snd (RegisterBits_write (RegisterBits (Register a w) bits shift) data d))
         = drop_bit shift (take_bit (8 * w) X) AND mask bits"
    using assms(1)
    by (simp add: RegisterBits_read_def Let_def RegisterBits_write_value
        Register_read_after_write X_def)
  show ?thesis
  proof (rule bit_eqI)
    fix i
    assume "possible_bit TYPE(32 word) i"
    then have i: "i < 32" by (simp add: possible_bit_def)
    have "bit (drop_bit shift (take_bit (8 * w) X) AND mask bits) i
          = (i < bits \<and> shift + i < 8 * w \<and> bit X (shift + i))"
      by (rule extract_bit)
    also have "\<dots> = (i < bits \<and> bit data i)"
      unfolding X_def merged_bit using assms(2,3) i by auto
    also have "\<dots> = bit (data AND mask bits) i"
      using i by (auto simp add: bit_and_iff bit_mask_iff)
    finally show "bit (RegisterBits_read (RegisterBits (Register a w) bits shift)
           (snd (RegisterBits_write (RegisterBits (Register a w) bits shift) data d))) i
        = bit (data AND mask bits) i"
      by (simp only: rd)
  qed
qed

lemma other_registers_kept:
  "r \<noteq> a \<Longrightarrow> regs (snd (RegisterBits_write (RegisterBits (Register a w) bits shift) data d)) r = regs d r"
  by (simp add: RegisterBits_write_value Register_write_simps)

lemma field_write_log:
  "bus_writes (snd (RegisterBits_write (RegisterBits (Register a w) bits shift) data d))
   = bus_writes d @ [(a, take_bit (8 * w) ((Register_read (Register a w) d AND NOT (push_bit shift (mask bits))) OR push_bit shift (data AND mask bits)))]"
  by (simp add: RegisterBits_write_value Register_write_simps)

lemma whole_register_write:
  "Register_write (Register a (Suc 0)) v d
   = RegisterBits_write (RegisterBits (Register a (Suc 0)) 8 0) v d"
proof -
  have "take_bit 8 ((Register_read (Register a (Suc 0)) d AND NOT (push_bit 0 (mask 8)))
          OR push_bit 0 (v AND mask 8)) = take_bit 8 v"
    unfolding bit_eq_iff bit_take_bit_iff merged_bit by auto
  then show ?thesis
    by (simp add: RegisterBits_write_value Register_write_def Let_def)
qed

lemma lowest_bit_zero:
  fixes Y :: "32 word"
  shows "(drop_bit s Y AND mask 1 = 0) = (\<not> bit Y s)"
  by (simp add: and_one_eq bit_iff_odd_drop_bit even_iff_mod_2_eq_zero)

lemma one_bit_field:
  assumes "acks d" and "s < 8 * w"
  shows "(RegisterBits_read (RegisterBits (Register a w) 1 s) d = 0) = (\<not> bit (regs d a) s)"
proof -
  have rd: "RegisterBits_read (RegisterBits (Register a w) 1 s) d
            = drop_bit s (take_bit (8 * w) (regs d a)) AND mask 1"
    using assms(1) by (simp add: RegisterBits_read_def Register_read_def Let_def)
  show ?thesis
    unfolding rd lowest_bit_zero using assms(2) by (simp add: bit_take_bit_iff)
qed

lemma part_number_test:
  fixes r :: "32 word"
  shows "((ucast (take_bit 8 r) :: 8 word) AND 0x38 = 0x18) = (drop_bit 3 r AND mask 3 = 3)"
proof -
  have a: "(0x38 :: 8 word) = push_bit 3 (mask 3)" by (simp add: mask_eq_exp_minus_1)
  have b: "(0x18 :: 8 word) = push_bit 3 (mask 2)" by (simp add: mask_eq_exp_minus_1)
  have c: "(3 :: 32 word) = mask 2" by (simp add: mask_eq_exp_minus_1)
  have l: "((ucast (take_bit 8 r) :: 8 word) AND 0x38 = 0x18)
           = (bit r 3 \<and> bit r 4 \<and> \<not> bit r 5)"
    unfolding a b bit_eq_iff
    apply (simp add: bit_simps)
    apply (rule iffI)
     apply (intro conjI)
    subgoal premises p using p [rule_format, of 3] by simp
    subgoal premises p using p [rule_format, of 4] by simp
    subgoal premises p using p [rule_format, of 5] by simp
    apply (auto simp add: less_Suc_eq numeral_eq_Suc)
    done
  have rr: "(drop_bit 3 r AND mask 3 = 3) = (bit r 3 \<and> bit r 4 \<and> \<not> bit r 5)"
    unfolding c bit_eq_iff
    apply (simp add: bit_simps)
    apply (rule iffI)
     apply (intro conjI)
    subgoal premises p using p [rule_format, of 0] by simp
    subgoal premises p using p [rule_format, of 1] by simp
    subgoal premises p using p [rule_format, of 2] by simp
    apply (auto simp add: less_Suc_eq numeral_eq_Suc)
    done
  show ?thesis by (simp only: l rr)
qed

section \<open>The setters in terms of their bit-fields\<close>

lemma set_flag_eq:
  "set_flag f b d = (True, snd (RegisterBits_write (flag_field f) (of_bool b) d))"
  by (cases f; cases b; simp add: Let_def
      setStopOnWDT_def setTrickleChargeTimerEnable_def setPrechargeTimerEnable_def
      setFastChargeTimerEnable_def setTimerHalfRateEnable_def setAutoOVPBattDischarge_def
      setForceBattDischarge_def setChargeEnable_def setICOEnable_def setForceICO_def
      setHIZMode_def setTerminationEnable_def setBackupModeEnable_def
      setForceDPinsDetection_def setAutoDPinsDetection_def setHVDCP12VEnable_def
      setHVDCP9VEnable_def setHVDCPEnable_def setShipFET10sDelay_def setOTGenable_def
      setACDRV2enable_def setACDRV1enable_def setVINDPMdetection_def setIBUS_OCPenable_def
      setShipFETpresent_def setBatDischargeSenseEnable_def setIINDPMenable_def
      setExtILIMpin_def setBatDischargeOCPenable_def setMPPTenable_def setVBUSpulldown_def
      setVAC1pulldown_def setVAC2pulldown_def setBackupACFET1on_def)

lemma set_inverted_eq:
  "set_inverted f b d = (True, snd (RegisterBits_write (inverted_field f) (of_bool (\<not> b)) d))"
  by (cases f; cases b; simp add: Let_def
      setACenable_def setOTGPFM_def setForwardPFM_def setBATFETLDOprecharge_def
      setOTGOOA_def setForwardOOA_def setStatPinEnable_def setVSYSshortProtect_def
      setVOTG_UVPProtect_def)

lemma get_inverted_eq:
  "get_inverted f d = (RegisterBits_read (inverted_field f) d = 0)"
  by (cases f; simp add: Let_def
      getACenable_def getOTGPFM_def getForwardPFM_def getBATFETLDOprecharge_def
      getOTGOOA_def getForwardOOA_def getStatPinEnable_def getVSYSshortProtect_def
      getVOTG_UVPProtect_def)

lemma set_enum_eq:
  "set_enum h s v d =
     (if (case enum_max h s of None \<Rightarrow> False | Some m \<Rightarrow> v > m) then (False, d)
      else (True, snd (RegisterBits_write (enum_field s) (ucast (of_nat v :: 8 word)) d)))"
  by (cases s; simp add: Let_def
      setVBatLowV_def setCellCount_def setRechargeDeglitchTime_def setPrechargeTimer_def
      setTopOffTimer_def setFastChargeTimer_def setBackupModeThresh_def setVACOVP_def
      setWDT_def setShipFETmode_def setShipWakeupDelay_def setPWMFrequency_def
      setBatDischargeA_def setVINDPM_VOCpercent_def setVOCdelay_def setVOCrate_def
      setThermRegulationThresh_def setThermShutdownThresh_def)

lemma action_eq:
  "resetWDT d = (True, snd (RegisterBits_write (target ResetWDT) 1 d))"
  "reset d = (True, snd (RegisterBits_write (target Reset) 1 d))"
  by (simp_all add: resetWDT_def reset_def Let_def)

lemma clamp_is_min:
  fixes r :: "'a::len word"
  shows "(if r > m then m else r) = min r m"
  by (auto simp add: min_def)

lemma set_linear_eq:
  "set_linear s v d =
     (if f32_less v (f32_lit (minValue s)) \<or> f32_greater v (f32_lit (maxValue s))
      then Some (False, d)
      else case raw_value s v of
             None \<Rightarrow> None
           | Some r \<Rightarrow> Some (True, snd (RegisterBits_write (linear_field s) r d)))"
  by (cases s; simp add: Let_def raw_value_def clamp_is_min whole_register_write
      split: option.splits add:
      setMinSystemV_def setChargeLimitV_def setChargeLimitA_def setInputLimitV_def
      setInputLimitA_def setPrechargeLimitA_def setTerminationA_def
      setRechargeThreshOffsetV_def setOTGV_def setOTGLimitA_def)

lemma unat_field_bound:
  fixes y :: "32 word"
  shows "unat (y AND mask n) \<le> 2 ^ n - 1"
proof -
  have "unat (take_bit n y) < 2 ^ n"
    by (simp add: unsigned_take_bit_eq)
  then show ?thesis
    by (simp add: take_bit_eq_mask)
qed

lemma merged_field:
  fixes val data :: "32 word"
  assumes "shift + bits \<le> n" and "shift + bits \<le> 32"
  shows "drop_bit shift (take_bit n ((val AND NOT (push_bit shift (mask bits)))
           OR push_bit shift (data AND mask bits))) AND mask bits = data AND mask bits"
proof (rule bit_eqI)
  fix i
  assume "possible_bit TYPE(32 word) i"
  then have i: "i < 32" by (simp add: possible_bit_def)
  define X where "X = (val AND NOT (push_bit shift (mask bits))) OR push_bit shift (data AND mask bits)"
  have "bit (drop_bit shift (take_bit n X) AND mask bits) i
        = (i < bits \<and> shift + i < n \<and> bit X (shift + i))"
    by (rule extract_bit)
  also have "\<dots> = (i < bits \<and> bit data i)"
    unfolding X_def merged_bit using assms i by auto
  also have "\<dots> = bit (data AND mask bits) i"
    using i by (auto simp add: bit_and_iff bit_mask_iff)
  finally show "bit (drop_bit shift (take_bit n ((val AND NOT (push_bit shift (mask bits)))
           OR push_bit shift (data AND mask bits))) AND mask bits) i = bit (data AND mask bits) i"
    by (simp only: X_def)
qed

lemma regs_frame:
  assumes "i < 8 * w" and "i < shift \<or> shift + bits \<le> i"
  shows "bit (regs (snd (RegisterBits_write (RegisterBits (Register a w) bits shift) data d)) a) i
         = bit (regs d a) i"
proof (cases "acks d")
  case True
  define d' where "d' = snd (RegisterBits_write (RegisterBits (Register a w) bits shift) data d)"
  have a': "acks d'"
    using True by (simp add: d'_def RegisterBits_write_value Register_write_simps)
  have t: "take_bit (8 * w) (regs d' a) = regs d' a"
    using True by (simp add: d'_def RegisterBits_write_value Register_write_simps)
  have "bit (Register_read (Register a w) d') i = bit (Register_read (Register a w) d) i"
    unfolding d'_def using assms(2) by (rule field_frame)
  then have "bit (take_bit (8 * w) (regs d' a)) i = bit (take_bit (8 * w) (regs d a)) i"
    using True a' by (simp add: Register_read_def)
  then show ?thesis
    using assms(1) unfolding d'_def [symmetric] by (simp add: bit_take_bit_iff)
next
  case False
  then show ?thesis
    by (simp add: RegisterBits_write_value Register_write_simps)
qed

lemma run_cases:
  assumes "run h c d = Some (ok, d')"
  shows "(\<not> ok \<and> d' = d) \<or> (ok \<and> (\<exists>data. d' = snd (RegisterBits_write (target c) data d)))"
proof (cases c)
  case (Linear s v)
  then show ?thesis
    using assms by (auto simp add: set_linear_eq split: if_splits option.splits)
next
  case (Enumerated s v)
  then show ?thesis
    using assms by (auto simp add: set_enum_eq split: if_splits)
next
  case (Flag s v)
  then show ?thesis
    using assms by (auto simp add: set_flag_eq)
next
  case (Inverted s v)
  then show ?thesis
    using assms by (auto simp add: set_inverted_eq)
next
  case ResetWDT
  then show ?thesis
    using assms by (auto simp add: action_eq simp del: target.simps)
next
  case Reset
  then show ?thesis
    using assms by (auto simp add: action_eq simp del: target.simps)
qed

lemma word_min_bound:
  fixes r :: "'a::len word"
  shows "unat (min r m) \<le> unat m"
  by (simp add: word_le_nat_alt [symmetric])

lemma unat_ucast_16_32: "unat (ucast (x :: 16 word) :: 32 word) = unat x"
proof -
  have "unat x < 2 ^ 32"
    by (rule order_less_le_trans [OF unsigned_less]) simp
  then show ?thesis
    by (simp add: unsigned_ucast_eq take_bit_nat_eq_self)
qed

lemma unat_ucast_8_32: "unat (ucast (x :: 8 word) :: 32 word) = unat x"
proof -
  have "unat x < 2 ^ 32"
    by (rule order_less_le_trans [OF unsigned_less]) simp
  then show ?thesis
    by (simp add: unsigned_ucast_eq take_bit_nat_eq_self)
qed

lemma raw_value_bound:
  assumes "raw_value s v = Some r"
  shows "unat r \<le> rawMax s"
proof (cases "wide s")
  case True
  then obtain x :: "16 word" where r: "r = ucast (min x (of_nat (rawMax s)))"
    using assms by (auto simp add: raw_value_def Let_def)
  have "unat (min x (of_nat (rawMax s))) \<le> unat (of_nat (rawMax s) :: 16 word)"
    by (rule word_min_bound)
  also have "\<dots> = rawMax s"
    by (cases s) simp_all
  finally show ?thesis
    by (simp add: r unat_ucast_16_32 unat_ucast_8_32)
next
  case False
  then obtain x :: "8 word" where r: "r = ucast (min x (of_nat (rawMax s)))"
    using assms by (auto simp add: raw_value_def Let_def)
  have "unat (min x (of_nat (rawMax s))) \<le> unat (of_nat (rawMax s) :: 8 word)"
    by (rule word_min_bound)
  also have "\<dots> = rawMax s"
    using False by (cases s) simp_all
  finally show ?thesis
    by (simp add: r unat_ucast_16_32 unat_ucast_8_32)
qed

lemma linear_field_shape:
  assumes "linear_field s = RegisterBits (Register a w) bits shift"
  shows "shift = 0 \<and> bits \<le> 8 * w \<and> bits \<le> 32 \<and> rawMax s = 2 ^ bits - 1"
  using assms by (cases s) auto

lemma target_fits:
  assumes "target c = RegisterBits (Register a w) bits shift"
  shows "shift + bits \<le> 8 * w \<and> shift + bits \<le> 32"
proof (cases c)
  case (Linear s v)
  then show ?thesis using assms by (cases s) auto
next
  case (Enumerated s v)
  then show ?thesis using assms by (cases s) auto
next
  case (Flag s v)
  then show ?thesis using assms by (cases s) auto
next
  case (Inverted s v)
  then show ?thesis using assms by (cases s) auto
next
  case ResetWDT
  then show ?thesis using assms by auto
next
  case Reset
  then show ?thesis using assms by auto
qed

lemma small_word_is_its_field:
  fixes r :: "32 word"
  assumes "unat r \<le> 2 ^ bits - 1"
  shows "r AND mask bits = r"
proof -
  have "(0::nat) < 2 ^ bits" by simp
  with assms have "unat r < 2 ^ bits" by arith
  then have "unat (take_bit bits r) = unat r"
    by (simp add: unsigned_take_bit_eq take_bit_nat_eq_self)
  then have "take_bit bits r = r"
    by (simp add: word_unat_eq_iff)
  then show ?thesis
    by (simp add: take_bit_eq_mask)
qed


lemma inverted_field_shape:
  assumes "inverted_field f = RegisterBits (Register a w) n s"
  shows "w = 1 \<and> n = 1 \<and> s < 8"
  using assms by (cases f) auto

lemma reset_bus_write:
  "\<exists>x. bus_writes (snd (reset d)) = bus_writes d @ [(BQ25798_REG_TERMINATION_CONTROL, x)]
       \<and> bit x 6
       \<and> (\<forall>i. i \<noteq> 6 \<longrightarrow> bit x i = (i < 8 \<and> bit (Register_read (Register BQ25798_REG_TERMINATION_CONTROL 1) d) i))"
proof -
  define X where "X = (Register_read (Register BQ25798_REG_TERMINATION_CONTROL 1) d
                        AND NOT (push_bit 6 (mask 1))) OR push_bit 6 (1 AND mask 1)"
  have w: "bus_writes (snd (reset d))
           = bus_writes d @ [(BQ25798_REG_TERMINATION_CONTROL, take_bit 8 X)]"
    by (simp add: action_eq field_write_log X_def)
  have b: "bit (take_bit 8 X) i = (i < 8 \<and> (if i = 6 then True
             else bit (Register_read (Register BQ25798_REG_TERMINATION_CONTROL 1) d) i))" for i
    unfolding bit_take_bit_iff X_def merged_bit by auto
  show ?thesis
    unfolding w using b by auto
qed

section \<open>Rounding to binary32\<close>

lemma bitlen_bounds:
  "0 < n \<Longrightarrow> 2 ^ (bitlen n - 1) \<le> n \<and> n < 2 ^ bitlen n"
proof (induction n rule: bitlen.induct)
  case (1 n)
  show ?case
  proof (cases "n div 2 = 0")
    case True
    with "1.prems" have "n = 1" by (simp add: div_eq_0_iff) 
    then show ?thesis by (simp add: bitlen.simps)
  next
    case False
    then have pos: "0 < n div 2" by simp
    have ih: "2 ^ (bitlen (n div 2) - 1) \<le> n div 2 \<and> n div 2 < 2 ^ bitlen (n div 2)"
      using "1.IH" "1.prems" pos by simp
    have bl: "bitlen n = Suc (bitlen (n div 2))"
      using "1.prems" by (subst bitlen.simps) simp
    have bp: "0 < bitlen (n div 2)"
      using pos by (subst bitlen.simps) simp
    have "(2::nat) ^ bitlen (n div 2) = 2 * 2 ^ (bitlen (n div 2) - 1)"
      using bp by (cases "bitlen (n div 2)") simp_all
    with ih have "(2::nat) ^ bitlen (n div 2) \<le> 2 * (n div 2)" by simp
    also have "\<dots> \<le> n" by simp
    finally have lo: "(2::nat) ^ (bitlen n - 1) \<le> n" by (simp add: bl)
    have "n < 2 * (n div 2) + 2" by presburger
    also have "\<dots> \<le> 2 * 2 ^ bitlen (n div 2)" using ih by simp
    finally have "n < 2 ^ bitlen n" by (simp add: bl)
    with lo show ?thesis by simp
  qed
qed

lemma bitlen_pos: "0 < n \<Longrightarrow> 0 < bitlen n"
  by (subst bitlen.simps) simp

lemma powi_nat: "(2::rat) powi (int n) = 2 ^ n"
  by (simp add: power_int_def)

lemma powi_neg_nat: "(2::rat) powi (- int n) = 1 / 2 ^ n"
  by (simp add: power_int_def field_simps)

lemma ilog2_bounds:
  assumes "0 < x"
  shows "2 powi (ilog2 x) \<le> x \<and> x < 2 powi (ilog2 x + 1)"
proof (cases "1 \<le> x")
  case True
  define n where "n = nat \<lfloor>x\<rfloor>"
  have n: "0 < n" "of_nat n \<le> x" "x < of_nat n + 1"
    using True by (simp_all add: n_def le_floor_iff) linarith+
  have e: "ilog2 x = int (bitlen n) - 1"
    using True by (simp add: ilog2_def n_def)
  from bitlen_bounds [OF n(1)] have b: "2 ^ (bitlen n - 1) \<le> n" "n < 2 ^ bitlen n" by simp_all
  have e': "ilog2 x = int (bitlen n - 1)"
    using bitlen_pos [OF n(1)] by (simp add: e)
  have "(2::rat) ^ (bitlen n - 1) \<le> of_nat n"
    using b(1) by (simp only: numeral_power_le_of_nat_cancel_iff)
  then have "(2::rat) ^ (bitlen n - 1) \<le> x"
    using n(2) by (rule order_trans)
  then have lo: "2 powi (ilog2 x) \<le> x"
    by (simp only: e' powi_nat)
  have "Suc n \<le> 2 ^ bitlen n" using b(2) by simp
  then have "of_nat (Suc n) \<le> (2::rat) ^ bitlen n"
    by (simp only: of_nat_le_numeral_power_cancel_iff)
  then have "of_nat n + 1 \<le> (2::rat) ^ bitlen n"
    by simp
  then have "x < 2 ^ bitlen n" using n(3) by (rule less_le_trans [rotated])
  moreover have "ilog2 x + 1 = int (bitlen n)" by (simp add: e)
  ultimately have "x < 2 powi (ilog2 x + 1)" by (simp only: powi_nat)
  with lo show ?thesis by simp
next
  case False
  define y where "y = 1 / x"
  have y: "1 < y" using False assms by (simp add: y_def)
  define m where "m = nat (\<lceil>y\<rceil> - 1)"
  have cy: "2 \<le> \<lceil>y\<rceil>" using y by (simp add: le_ceiling_iff) 
  have m: "0 < m" "of_nat m < y" "y \<le> of_nat m + 1"
    using cy by (simp_all add: m_def) linarith+
  have e: "ilog2 x = - int (bitlen m)"
    using False by (simp add: ilog2_def m_def y_def)
  from bitlen_bounds [OF m(1)] have b: "2 ^ (bitlen m - 1) \<le> m" "m < 2 ^ bitlen m" by simp_all
  have "Suc m \<le> 2 ^ bitlen m" using b(2) by simp
  then have "of_nat (Suc m) \<le> (2::rat) ^ bitlen m"
    by (simp only: of_nat_le_numeral_power_cancel_iff)
  then have "of_nat m + 1 \<le> (2::rat) ^ bitlen m"
    by simp
  then have "y \<le> 2 ^ bitlen m" using m(3) by (rule order_trans [rotated])
  then have "1 / 2 ^ bitlen m \<le> x"
    using assms by (simp add: y_def field_simps)
  then have lo: "2 powi (ilog2 x) \<le> x" by (simp only: e powi_neg_nat)
  have "(2::rat) ^ (bitlen m - 1) \<le> of_nat m"
    using b(1) by (simp only: numeral_power_le_of_nat_cancel_iff)
  then have "2 ^ (bitlen m - 1) < y" using m(2) by (rule le_less_trans)
  then have "x < 1 / 2 ^ (bitlen m - 1)"
    using assms by (simp add: y_def field_simps)
  moreover have "ilog2 x + 1 = - int (bitlen m - 1)"
    using bitlen_pos [OF m(1)] by (simp add: e)
  ultimately have "x < 2 powi (ilog2 x + 1)" by (simp only: powi_neg_nat)
  with lo show ?thesis by simp
qed

lemma ilog2_unique:
  assumes "2 powi e \<le> x" and "x < 2 powi (e + 1)"
  shows "ilog2 x = e"
proof -
  have "0 < (2::rat) powi e" by simp
  then have pos: "0 < x" using assms(1) by (rule less_le_trans)
  from ilog2_bounds [OF pos]
  have a: "2 powi (ilog2 x) \<le> x" and b: "x < 2 powi (ilog2 x + 1)" by simp_all
  have "e < ilog2 x + 1"
  proof (rule ccontr)
    assume "\<not> e < ilog2 x + 1"
    then have "(2::rat) powi (ilog2 x + 1) \<le> 2 powi e"
      by (intro power_int_increasing) simp_all
    with b assms(1) show False by simp
  qed
  moreover have "ilog2 x < e + 1"
  proof (rule ccontr)
    assume "\<not> ilog2 x < e + 1"
    then have "(2::rat) powi (e + 1) \<le> 2 powi (ilog2 x)"
      by (intro power_int_increasing) simp_all
    with a assms(2) show False by simp
  qed
  ultimately show ?thesis by simp
qed

lemma rne_floor: "rne x = \<lfloor>x\<rfloor> \<or> rne x = \<lfloor>x\<rfloor> + 1"
  by (simp add: rne_def Let_def)

lemma rne_error: "\<bar>of_int (rne x) - x\<bar> \<le> 1 / 2"
proof -
  define f where "f = \<lfloor>x\<rfloor>"
  have f: "of_int f \<le> x" "x < of_int f + 1"
    unfolding f_def by linarith+
  consider "x - of_int f < 1 / 2" | "1 / 2 < x - of_int f" | "x - of_int f = 1 / 2"
    by linarith
  then show ?thesis
  proof cases
    case 1
    then have "rne x = f" by (simp add: rne_def Let_def f_def)
    with 1 f show ?thesis by (simp add: abs_if)
  next
    case 2
    then have "rne x = f + 1" by (simp add: rne_def Let_def f_def)
    with 2 f show ?thesis by (simp add: abs_if)
  next
    case 3
    then have "rne x = f \<or> rne x = f + 1" by (simp add: rne_def Let_def f_def)
    with 3 f show ?thesis by (auto simp add: abs_if)
  qed
qed

lemma rne_of_int: "rne (of_int n) = n"
  by (simp add: rne_def Let_def)

lemma rne_ge_int: "of_int n \<le> x \<Longrightarrow> n \<le> rne x"
proof -
  assume "of_int n \<le> x"
  then have "n \<le> \<lfloor>x\<rfloor>" by (simp add: le_floor_iff)
  then show ?thesis using rne_floor [of x] by auto
qed

lemma round32_shape:
  assumes "x \<noteq> 0" and "2 powi e \<le> \<bar>x\<bar>" and "\<bar>x\<bar> < 2 powi (e + 1)" and "e \<le> 126"
  shows "round32 x = Finite (of_int (rne (x / 2 powi (max e (- 126) - 23)))
                              * 2 powi (max e (- 126) - 23))"
    and "\<bar>of_int (rne (x / 2 powi (max e (- 126) - 23))) * 2 powi (max e (- 126) - 23) - x\<bar>
         \<le> 2 powi (max e (- 126) - 24)"
proof -
  define E where "E = max e (- 126) - 23"
  define y :: rat where "y = of_int (rne (x / 2 powi E)) * 2 powi E"
  have il: "ilog2 \<bar>x\<bar> = e"
    using assms(2,3) by (rule ilog2_unique)
  have p: "0 < (2::rat) powi E" by simp
  have "y - x = (of_int (rne (x / 2 powi E)) - x / 2 powi E) * 2 powi E"
    using p by (simp add: y_def field_simps)
  then have "\<bar>y - x\<bar> = \<bar>of_int (rne (x / 2 powi E)) - x / 2 powi E\<bar> * 2 powi E"
    using p by (simp add: abs_mult)
  also have "\<dots> \<le> 1 / 2 * 2 powi E"
    using p rne_error [of "x / 2 powi E"] by (intro mult_right_mono) simp_all
  also have "\<dots> = 2 powi (E - 1)"
    by (simp add: power_int_diff)
  finally have err: "\<bar>y - x\<bar> \<le> 2 powi (E - 1)" .
  have "E - 1 \<le> 103" using assms(4) by (simp add: E_def)
  then have "(2::rat) powi (E - 1) \<le> 2 powi 103"
    by (intro power_int_increasing) simp_all
  moreover have "(2::rat) powi (e + 1) \<le> 2 powi 127"
    using assms(4) by (intro power_int_increasing) simp_all
  ultimately have "\<bar>y\<bar> < 2 powi 127 + 2 powi 103"
    using err assms(3) by linarith
  also have "\<dots> < (2::rat) ^ 128" by (simp add: power_int_def)
  finally have fin: "\<not> 2 ^ 128 \<le> \<bar>y\<bar>" by simp
  show "round32 x = Finite (of_int (rne (x / 2 powi (max e (- 126) - 23)))
                              * 2 powi (max e (- 126) - 23))"
    using assms(1) fin by (simp add: round32_def il Let_def E_def [symmetric] y_def [symmetric])
  show "\<bar>of_int (rne (x / 2 powi (max e (- 126) - 23))) * 2 powi (max e (- 126) - 23) - x\<bar>
         \<le> 2 powi (max e (- 126) - 24)"
    using err by (simp add: y_def E_def)
qed

lemma ilog2_upper:
  assumes "0 < x" and "x < 2 ^ n"
  shows "ilog2 x < int n"
proof (rule ccontr)
  assume "\<not> ilog2 x < int n"
  then have "(2::rat) powi (int n) \<le> 2 powi (ilog2 x)"
    by (intro power_int_increasing) simp_all
  with ilog2_bounds [OF assms(1)] assms(2) show False
    by (simp add: powi_nat)
qed

lemma round32_error:
  assumes "\<bar>x\<bar> < 2 ^ 127"
  shows "\<exists>y. round32 x = Finite y \<and> \<bar>y - x\<bar> \<le> \<bar>x\<bar> / 2 ^ 24 + 1 / 2 ^ 150"
proof (cases "x = 0")
  case True
  then show ?thesis by (simp add: round32_def)
next
  case False
  define e where "e = ilog2 \<bar>x\<bar>"
  have pos: "0 < \<bar>x\<bar>" using False by simp
  have b: "2 powi e \<le> \<bar>x\<bar>" "\<bar>x\<bar> < 2 powi (e + 1)"
    using ilog2_bounds [OF pos] by (simp_all add: e_def)
  have e: "e \<le> 126"
    using ilog2_upper [OF pos assms] by (simp add: e_def)
  define y :: rat where "y = of_int (rne (x / 2 powi (max e (- 126) - 23))) * 2 powi (max e (- 126) - 23)"
  have r: "round32 x = Finite y" and err: "\<bar>y - x\<bar> \<le> 2 powi (max e (- 126) - 24)"
    using round32_shape [OF False b e] by (simp_all add: y_def)
  have "(2::rat) powi (max e (- 126) - 24) \<le> \<bar>x\<bar> / 2 ^ 24 + 1 / 2 ^ 150"
  proof (cases "- 126 \<le> e")
    case True
    then have "(2::rat) powi (max e (- 126) - 24) = 2 powi e / 2 ^ 24"
      by (simp add: max_def power_int_diff)
    also have "\<dots> \<le> \<bar>x\<bar> / 2 ^ 24"
      using b(1) by (simp add: divide_right_mono)
    finally show ?thesis by simp
  next
    case False
    then have "max e (- 126) - 24 = - int 150"
      by simp
    then have "(2::rat) powi (max e (- 126) - 24) = 1 / 2 ^ 150"
      by (simp only: powi_neg_nat)
    then show ?thesis by simp
  qed
  with err r show ?thesis by auto
qed

lemma round32_cases:
  assumes "x \<noteq> 0" and "\<bar>x\<bar> < 2 ^ 127"
  obtains e where "2 powi e \<le> \<bar>x\<bar>" and "\<bar>x\<bar> < 2 powi (e + 1)" and "e \<le> 126"
    and "round32 x = Finite (of_int (rne (x / 2 powi (max e (- 126) - 23)))
                              * 2 powi (max e (- 126) - 23))"
proof -
  define e where "e = ilog2 \<bar>x\<bar>"
  have pos: "0 < \<bar>x\<bar>" using assms(1) by simp
  have b: "2 powi e \<le> \<bar>x\<bar>" "\<bar>x\<bar> < 2 powi (e + 1)"
    using ilog2_bounds [OF pos] by (simp_all add: e_def)
  have e: "e \<le> 126"
    using ilog2_upper [OF pos assms(2)] by (simp add: e_def)
  show thesis
    using that [OF b e] round32_shape(1) [OF assms(1) b e] by simp
qed

lemma round32_exact:
  assumes "\<bar>m\<bar> < 2 ^ 24" and "- 149 \<le> k" and "\<bar>of_int m * 2 powi k\<bar> < (2::rat) ^ 127"
  shows "round32 (of_int m * 2 powi k) = Finite (of_int m * 2 powi k)"
proof (cases "m = 0")
  case True
  then show ?thesis by (simp add: round32_def)
next
  case False
  define x :: rat where "x = of_int m * 2 powi k"
  have x0: "x \<noteq> 0" using False by (simp add: x_def)
  from round32_cases [OF x0 assms(3) [folded x_def]]
  obtain e where b: "2 powi e \<le> \<bar>x\<bar>" "\<bar>x\<bar> < 2 powi (e + 1)" and e: "e \<le> 126"
    and r: "round32 x = Finite (of_int (rne (x / 2 powi (max e (- 126) - 23)))
                              * 2 powi (max e (- 126) - 23))"
    by blast
  define E where "E = max e (- 126) - 23"
  have kE: "E \<le> k"
  proof (rule ccontr)
    assume "\<not> E \<le> k"
    then have lt: "k < E" by simp
    then have "E = e - 23" using assms(2) by (simp add: E_def max_def split: if_splits)
    then have "24 + k \<le> e" using lt by simp
    have "\<bar>x\<bar> = of_int \<bar>m\<bar> * 2 powi k"
      by (simp add: x_def abs_mult)
    also have "\<dots> < 2 ^ 24 * 2 powi k"
    proof (rule mult_strict_right_mono)
      have "(of_int \<bar>m\<bar> :: rat) < of_int (2 ^ 24)"
        using assms(1) by (simp only: of_int_less_iff)
      then show "(of_int \<bar>m\<bar> :: rat) < 2 ^ 24" by simp
    qed simp
    also have "\<dots> = 2 powi (24 + k)"
      by (simp add: power_int_add)
    also have "\<dots> \<le> 2 powi e"
      using \<open>24 + k \<le> e\<close> by (intro power_int_increasing) simp_all
    finally show False using b(1) by simp
  qed
  define j where "j = nat (k - E)"
  have "(2::rat) powi k = 2 powi (k - E) * 2 powi E"
    by (simp add: power_int_diff)
  also have "(2::rat) powi (k - E) = 2 ^ j"
    using kE by (simp add: j_def power_int_def)
  finally have pk: "(2::rat) powi k = 2 ^ j * 2 powi E" .
  have "x / 2 powi E = of_int (m * 2 ^ j)"
    by (simp add: x_def pk)
  then have "rne (x / 2 powi E) = m * 2 ^ j"
    by (simp only: rne_of_int)
  then have "of_int (rne (x / 2 powi E)) * 2 powi E = x"
    by (simp add: x_def pk)
  then show ?thesis
    using r by (simp add: E_def x_def)
qed

lemma round32_of_int:
  assumes "\<bar>m\<bar> < 2 ^ 24"
  shows "round32 (of_int m) = Finite (of_int m)"
proof -
  have "(of_int \<bar>m\<bar> :: rat) < of_int (2 ^ 24)"
    using assms by (simp only: of_int_less_iff)
  then have "\<bar>of_int m :: rat\<bar> < 2 ^ 24"
    by simp
  also have "\<dots> < (2::rat) ^ 127" by simp
  finally show ?thesis
    using round32_exact [OF assms, of 0] by simp
qed

lemma round32_ge_int:
  assumes "round32 x = Finite y" and "of_int n \<le> x" and "0 \<le> n" and "x < 2 ^ 24"
  shows "of_int n \<le> y"
proof (cases "x = 0")
  case True
  then show ?thesis using assms by (simp add: round32_def)
next
  case False
  have "(0::rat) \<le> of_int n" using assms(3) by simp
  then have xp: "0 < x" using False assms(2) by linarith
  have x127: "\<bar>x\<bar> < 2 ^ 127"
  proof -
    have "\<bar>x\<bar> < 2 ^ 24" using xp assms(4) by simp
    also have "\<dots> < (2::rat) ^ 127" by simp
    finally show ?thesis .
  qed
  from round32_cases [OF False x127]
  obtain e where b: "2 powi e \<le> \<bar>x\<bar>" "\<bar>x\<bar> < 2 powi (e + 1)" and e: "e \<le> 126"
    and r: "round32 x = Finite (of_int (rne (x / 2 powi (max e (- 126) - 23)))
                              * 2 powi (max e (- 126) - 23))"
    by blast
  define E where "E = max e (- 126) - 23"
  have "e < 24"
  proof (rule ccontr)
    assume "\<not> e < 24"
    then have "(2::rat) powi 24 \<le> 2 powi e"
      by (intro power_int_increasing) simp_all
    with b(1) assms(4) xp show False by (simp add: power_int_def)
  qed
  then have E0: "E \<le> 0" by (simp add: E_def)
  define j where "j = nat (- E)"
  have pE: "(2::rat) powi E = 1 / 2 ^ j"
    using E0 powi_neg_nat [of j] by (simp add: j_def)
  have "of_int (n * 2 ^ j) \<le> x / 2 powi E"
    using assms(2) by (simp add: pE mult_right_mono)
  then have "n * 2 ^ j \<le> rne (x / 2 powi E)"
    by (rule rne_ge_int)
  then have "(of_int (n * 2 ^ j) :: rat) \<le> of_int (rne (x / 2 powi E))"
    by (simp only: of_int_le_iff)
  then have "(of_int n :: rat) \<le> of_int (rne (x / 2 powi E)) * 2 powi E"
    by (simp add: pE field_simps)
  then show ?thesis
    using r assms(1) by (simp add: E_def)
qed

lemma raw_arith:
  fixes x b c t q :: rat and r :: int
  assumes c: "1 / 128 \<le> c" "c \<le> 1 / 4"
    and b: "0 \<le> b" and x: "b \<le> x" "x \<le> 22"
    and t: "\<bar>t - (x - b)\<bar> \<le> \<bar>x - b\<bar> / 2 ^ 24 + 1 / 2 ^ 150" "0 \<le> t"
    and q: "\<bar>q - t / c\<bar> \<le> \<bar>t / c\<bar> / 2 ^ 24 + 1 / 2 ^ 150" "of_int \<lfloor>t / c\<rfloor> \<le> q"
    and r: "r = \<lfloor>q\<rfloor>"
  shows "0 \<le> q" and "0 \<le> r"
    and "of_int r \<le> (((x - b) * (1 + 1 / 2 ^ 24) + 1 / 2 ^ 150) / c) * (1 + 1 / 2 ^ 24) + 1 / 2 ^ 150"
    and "of_int r * c \<le> t + t / 2 ^ 24 + 1 / 2 ^ 150"
    and "t - c < of_int r * c"
    and "t \<le> x - b + 22 / 2 ^ 24 + 1 / 2 ^ 150"
    and "x - b - (22 / 2 ^ 24 + 1 / 2 ^ 150) \<le> t"
proof -
  define u :: rat where "u = 1 / 2 ^ 24"
  define e :: rat where "e = 1 / 2 ^ 150"
  have u: "0 < u" "u \<le> 1 / 16777216" by (simp_all add: u_def)
  have e: "0 < e" "e \<le> u" by (simp_all add: e_def u_def)
  have cp: "0 < c" using c(1) by simp
  have xb: "0 \<le> x - b" "x - b \<le> 22" using b x by simp_all
  have t': "\<bar>t - (x - b)\<bar> \<le> (x - b) * u + e"
    using t(1) xb by (simp add: u_def e_def)
  have xbu: "(x - b) * u \<le> 22 * u"
    using xb u by (intro mult_right_mono) simp_all
  have t1: "t \<le> (x - b) + (x - b) * u + e"
    using t' unfolding abs_le_iff by linarith
  have "t \<le> x - b + 22 * u + e"
    using t1 xbu by linarith
  then show "t \<le> x - b + 22 / 2 ^ 24 + 1 / 2 ^ 150"
    by (simp only: u_def e_def times_divide_eq_right mult_1_right)
  have "x - b - (22 * u + e) \<le> t"
    using t' xbu unfolding abs_le_iff by linarith
  then show "x - b - (22 / 2 ^ 24 + 1 / 2 ^ 150) \<le> t"
    by (simp only: u_def e_def times_divide_eq_right mult_1_right)
  have tc: "0 \<le> t / c" using t(2) cp by simp
  have fl: "0 \<le> \<lfloor>t / c\<rfloor>" using tc by simp
  have "(0::rat) \<le> of_int \<lfloor>t / c\<rfloor>" using fl by simp
  then show q0: "0 \<le> q"
    using q(2) by linarith
  show r0: "0 \<le> r" using q0 by (simp add: r)
  have rf: "\<lfloor>t / c\<rfloor> \<le> r"
    using q(2) by (simp add: r le_floor_iff)
  have q': "\<bar>q - t / c\<bar> \<le> t / c * u + e"
    using q(1) tc by (simp add: u_def e_def)
  have q1: "q \<le> t / c * (1 + u) + e"
  proof -
    have "q \<le> t / c + t / c * u + e"
      using q' unfolding abs_le_iff by linarith
    moreover have "t / c * (1 + u) = t / c + t / c * u"
      by (simp only: distrib_left mult_1_right)
    ultimately show ?thesis by linarith
  qed
  have rq: "of_int r \<le> q" by (simp add: r)
  have "(x - b) * (1 + u) = (x - b) + (x - b) * u"
    by (simp only: distrib_left mult_1_right)
  then have t1': "t \<le> (x - b) * (1 + u) + e"
    using t1 by linarith
  have "t / c * (1 + u) \<le> ((x - b) * (1 + u) + e) / c * (1 + u)"
    using t1' cp u by (intro mult_right_mono divide_right_mono) simp_all
  then have "of_int r \<le> ((x - b) * (1 + u) + e) / c * (1 + u) + e"
    using rq q1 by linarith
  then show "of_int r \<le> (((x - b) * (1 + 1 / 2 ^ 24) + 1 / 2 ^ 150) / c) * (1 + 1 / 2 ^ 24) + 1 / 2 ^ 150"
    by (simp only: u_def e_def)
  have rc_up: "of_int r * c \<le> t + t * u + e * c"
  proof -
    have "of_int r \<le> t / c * (1 + u) + e"
      using rq q1 by linarith
    then have "of_int r * c \<le> (t / c * (1 + u) + e) * c"
      using cp by (intro mult_right_mono) simp_all
    also have "\<dots> = t + t * u + e * c"
      using cp by (simp add: field_simps)
    finally show ?thesis .
  qed
  have ec: "e * c \<le> e * 1"
    using e c by (intro mult_left_mono) simp_all
  have "of_int r * c \<le> t + t * u + e"
    using rc_up ec by linarith
  then show "of_int r * c \<le> t + t / 2 ^ 24 + 1 / 2 ^ 150"
    by (simp only: u_def e_def times_divide_eq_right mult_1_right)
  show "t - c < of_int r * c"
  proof -
    have "t / c < of_int \<lfloor>t / c\<rfloor> + 1" by linarith
    also have "\<dots> \<le> of_int r + 1" using rf by simp
    finally have "t / c * c < (of_int r + 1) * c"
      using cp by (intro mult_strict_right_mono) simp_all
    then show ?thesis using cp by (simp add: field_simps)
  qed
qed

lemma roundtrip_arith:
  fixes x b c t g res :: rat and r :: int
  assumes b: "0 \<le> b" and x: "b \<le> x" "x \<le> 22"
    and t: "0 \<le> t" "t \<le> x - b + 22 / 2 ^ 24 + 1 / 2 ^ 150"
      "x - b - (22 / 2 ^ 24 + 1 / 2 ^ 150) \<le> t"
    and rc: "0 \<le> of_int r * c" "of_int r * c \<le> t + t / 2 ^ 24 + 1 / 2 ^ 150"
      "t - c < of_int r * c"
    and g: "\<bar>g - of_int r * c\<bar> \<le> \<bar>of_int r * c\<bar> / 2 ^ 24 + 1 / 2 ^ 150"
    and res: "\<bar>res - (g + b)\<bar> \<le> \<bar>g + b\<bar> / 2 ^ 24 + 1 / 2 ^ 150"
  shows "x - c - (93 / 2 ^ 24 + 3 / 2 ^ 150) < res" and "res < x + 1 / 2 ^ 17"
proof -
  define u :: rat where "u = 1 / 2 ^ 24"
  define e :: rat where "e = 1 / 2 ^ 150"
  have u: "0 < u" "u \<le> 1 / 16777216" by (simp_all add: u_def)
  have e: "0 < e" "e \<le> u" by (simp_all add: e_def u_def)
  have t1: "t \<le> x - b + 22 * u + e" and t2: "x - b - (22 * u + e) \<le> t"
    using t(2,3) by (simp_all add: u_def e_def)
  have t23: "t \<le> 23"
    using t1 b x u e by linarith
  have tu: "t * u \<le> 23 * u"
    using t23 u by (intro mult_right_mono) simp_all
  have rc_up: "of_int r * c \<le> t + t * u + e"
    using rc(2) by (simp add: u_def e_def)
  have rc24: "of_int r * c \<le> 24"
    using rc_up tu t23 u e by linarith
  have g1: "\<bar>g - of_int r * c\<bar> \<le> 24 * u + e"
  proof -
    have "of_int r * c * u \<le> 24 * u"
      using rc24 u by (intro mult_right_mono) simp_all
    moreover have "\<bar>g - of_int r * c\<bar> \<le> of_int r * c * u + e"
      using g rc(1) by (simp add: u_def e_def)
    ultimately show ?thesis by linarith
  qed
  have g25: "g \<le> 25" "- 1 \<le> g"
    using g1 rc24 rc(1) u e unfolding abs_le_iff by linarith+
  have gb: "\<bar>g + b\<bar> \<le> 47"
    using g25 b x unfolding abs_le_iff by linarith
  have r1: "\<bar>res - (g + b)\<bar> \<le> 47 * u + e"
  proof -
    have "\<bar>g + b\<bar> * u \<le> 47 * u"
      using gb u by (intro mult_right_mono) simp_all
    moreover have "\<bar>res - (g + b)\<bar> \<le> \<bar>g + b\<bar> * u + e"
      using res by (simp add: u_def e_def)
    ultimately show ?thesis by linarith
  qed
  have up: "res \<le> x + (116 * u + 4 * e)"
    using t1 rc_up tu g1 r1 unfolding abs_le_iff by linarith
  have "x - c - (93 * u + 3 * e) < res"
    using r1 g1 rc(3) t2 unfolding abs_le_iff by linarith
  then show "x - c - (93 / 2 ^ 24 + 3 / 2 ^ 150) < res"
    by (simp add: u_def e_def)
  have "116 * u + 4 * e < 1 / 2 ^ 17"
    by (simp add: u_def e_def)
  with up show "res < x + 1 / 2 ^ 17"
    by linarith
qed

section \<open>The linear accessors\<close>

lemma literal_values:
  "f32_lit (5 / 2) = Finite (5 / 2)"
  "f32_lit (1 / 4) = Finite (1 / 4)"
  "f32_lit 16 = Finite 16"
  by code_simp+

lemma uint_field_8:
  fixes x :: "32 word"
  assumes "bits \<le> 8"
  shows "uint (ucast (x AND mask bits) :: 8 word) = uint (x AND mask bits)"
proof -
  have "unat (x AND mask bits) \<le> 2 ^ bits - 1"
    by (rule unat_field_bound)
  also have "\<dots> < 2 ^ bits" by simp
  also have "\<dots> \<le> (2::nat) ^ 8"
    using assms by (intro power_increasing) simp_all
  finally have "unat (ucast (x AND mask bits) :: 8 word) = unat (x AND mask bits)"
    by (simp add: unsigned_ucast_eq take_bit_nat_eq_self)
  then show ?thesis
    by (simp only: uint_nat)
qed

lemma uint_field_16:
  fixes x :: "32 word"
  assumes "bits \<le> 16"
  shows "uint (ucast (x AND mask bits) :: 16 word) = uint (x AND mask bits)"
proof -
  have "unat (x AND mask bits) \<le> 2 ^ bits - 1"
    by (rule unat_field_bound)
  also have "\<dots> < 2 ^ bits" by simp
  also have "\<dots> \<le> (2::nat) ^ 16"
    using assms by (intro power_increasing) simp_all
  finally have "unat (ucast (x AND mask bits) :: 16 word) = unat (x AND mask bits)"
    by (simp add: unsigned_ucast_eq take_bit_nat_eq_self)
  then show ?thesis
    by (simp only: uint_nat)
qed

lemma min_system_decoding:
  assumes "n \<le> 63"
  shows "f32_add (f32_mul (f32_of_int (int n)) (f32_lit (25 / 100))) (f32_lit (25 / 10))
         = Finite (25 / 10 + 25 / 100 * of_nat n)"
proof -
  have n: "\<bar>int n\<bar> < 2 ^ 24" "\<bar>int n + 10\<bar> < 2 ^ 24"
    using assms by simp_all
  have "(of_nat n :: rat) \<le> 63" using assms by simp
  then have s: "\<bar>of_int (int n) * 2 powi (- 2)\<bar> < (2::rat) ^ 127"
    "\<bar>of_int (int n + 10) * 2 powi (- 2)\<bar> < (2::rat) ^ 127"
    by (simp_all add: power_int_minus abs_if)
  have a: "f32_of_int (int n) = Finite (of_nat n)"
    using round32_of_int [OF n(1)] by (simp add: f32_of_int_def)
  have "round32 (of_int (int n) * 2 powi (- 2)) = Finite (of_int (int n) * 2 powi (- 2))"
    using n(1) _ s(1) by (rule round32_exact) simp
  then have b: "round32 (of_nat n / 4) = Finite (of_nat n / 4)"
    by (simp add: power_int_minus)
  have "round32 (of_int (int n + 10) * 2 powi (- 2)) = Finite (of_int (int n + 10) * 2 powi (- 2))"
    using n(2) _ s(2) by (rule round32_exact) simp
  moreover have "of_int (int n + 10) * 2 powi (- 2) = (of_nat n / 4 + 5 / 2 :: rat)"
    by (simp add: power_int_minus field_simps)
  ultimately have c: "round32 (of_nat n / 4 + 5 / 2) = Finite (of_nat n / 4 + 5 / 2)"
    by (simp only:)
  show ?thesis
    by (simp add: literal_values a b c)
qed

lemma literals:
  "f32_lit 0 = Finite 0"
  "f32_lit 1 = Finite 1"
  "f32_lit 2 = Finite 2"
  "f32_lit 3 = Finite 3"
  "f32_lit 5 = Finite 5"
  "f32_lit 22 = Finite 22"
  "f32_lit (94 / 5) = Finite (4928307 / 262144)"
  "f32_lit (1 / 100) = Finite (5368709 / 536870912)"
  "f32_lit (1 / 20) = Finite (13421773 / 268435456)"
  "f32_lit (18 / 5) = Finite (7549747 / 2097152)"
  "f32_lit (1 / 10) = Finite (13421773 / 134217728)"
  "f32_lit (33 / 10) = Finite (13841203 / 4194304)"
  "f32_lit (1 / 25) = Finite (5368709 / 134217728)"
  "f32_lit (4 / 5) = Finite (13421773 / 16777216)"
  "f32_lit (14 / 5) = Finite (11744051 / 4194304)"
  "f32_lit (4 / 25) = Finite (5368709 / 33554432)"
  "f32_lit (84 / 25) = Finite (14092861 / 4194304)"
  "f32_lit (21 / 5) = Finite (4404019 / 1048576)"
  by code_simp+

lemma RegisterBits_read_field:
  "RegisterBits_read (RegisterBits R bits shift) d = drop_bit shift (Register_read R d) AND mask bits"
  by (simp add: RegisterBits_read_def Let_def)

lemma uint_ucast_8:
  fixes x :: "32 word"
  shows "uint (ucast x :: 8 word) = uint (x AND mask 8)"
  by (simp add: unsigned_ucast_eq unsigned_take_bit_eq flip: take_bit_eq_mask)

lemma get_linear_eq:
  "get_linear s d =
     (let g = f32_mul (f32_of_int (uint (RegisterBits_read (linear_field s) d))) (f32_lit (scale s))
      in if offset s = 0 then g else f32_add g (f32_lit (offset s)))"
proof (cases s)
  case InputLimitV
  then show ?thesis
    by (simp add: Let_def RegisterBits_read_field getInputLimitV_def uint_ucast_8)
qed (simp_all add: Let_def RegisterBits_read_field uint_field_8 uint_field_16
      getMinSystemV_def getChargeLimitV_def getChargeLimitA_def
      getInputLimitA_def getPrechargeLimitA_def getTerminationA_def
      getRechargeThreshOffsetV_def getOTGV_def getOTGLimitA_def)

lemma clamp_small_16:
  assumes "n \<le> m" and "m < 2 ^ 16"
  shows "ucast (min (word_of_int (int n) :: 16 word) (of_nat m)) = (of_nat n :: 32 word)"
proof -
  have n: "unat (of_nat n :: 16 word) = n" and m: "unat (of_nat m :: 16 word) = m"
    using assms by (simp_all add: unat_of_nat)
  then have "(of_nat n :: 16 word) \<le> of_nat m"
    using assms(1) by (simp add: word_le_nat_alt)
  then have eq: "min (word_of_int (int n) :: 16 word) (of_nat m) = of_nat n"
    by (simp add: min_def)
  have "n < 2 ^ 16" using assms by simp
  also have "\<dots> < (2::nat) ^ 32" by simp
  finally have "n < 2 ^ 32" .
  then have "unat (ucast (of_nat n :: 16 word) :: 32 word) = unat (of_nat n :: 32 word)"
    using n by (simp add: unat_ucast_16_32 unat_of_nat)
  then show ?thesis
    unfolding eq by (simp only: word_unat_eq_iff)
qed

lemma clamp_small_8:
  assumes "n \<le> m" and "m < 2 ^ 8"
  shows "ucast (min (word_of_int (int n) :: 8 word) (of_nat m)) = (of_nat n :: 32 word)"
proof -
  have n: "unat (of_nat n :: 8 word) = n" and m: "unat (of_nat m :: 8 word) = m"
    using assms by (simp_all add: unat_of_nat)
  then have "(of_nat n :: 8 word) \<le> of_nat m"
    using assms(1) by (simp add: word_le_nat_alt)
  then have eq: "min (word_of_int (int n) :: 8 word) (of_nat m) = of_nat n"
    by (simp add: min_def)
  have "n < 2 ^ 8" using assms by simp
  also have "\<dots> < (2::nat) ^ 32" by simp
  finally have "n < 2 ^ 32" .
  then have "unat (ucast (of_nat n :: 8 word) :: 32 word) = unat (of_nat n :: 32 word)"
    using n by (simp add: unat_ucast_8_32 unat_of_nat)
  then show ?thesis
    unfolding eq by (simp only: word_unat_eq_iff)
qed

lemma rawMax_width:
  "rawMax s < 2 ^ 16" "\<not> wide s \<Longrightarrow> rawMax s < 2 ^ 8"
  by (cases s; simp)+

lemma raw_value_Some:
  assumes "f32_div (if offset s = 0 then v else f32_sub v (f32_lit (offset s)))
             (f32_lit (scale s)) = Finite q"
    and "0 \<le> q" and "nat \<lfloor>q\<rfloor> \<le> rawMax s"
  shows "raw_value s v = Some (of_nat (nat \<lfloor>q\<rfloor>))"
proof -
  define n where "n = nat \<lfloor>q\<rfloor>"
  have fl: "\<lfloor>q\<rfloor> = int n" using assms(2) by (simp add: n_def)
  have nm: "n \<le> rawMax s" using assms(3) by (simp add: n_def)
  show ?thesis
  proof (cases "wide s")
    case True
    have "int n < 2 ^ 16"
      using nm rawMax_width(1) [of s] by simp
    then have "f32_to_uint16 (Finite q) = Some (word_of_int (int n))"
      using assms(2) by (simp add: f32_to_uint16_def fl)
    then show ?thesis
      using True assms(1) clamp_small_16 [OF nm rawMax_width(1)]
      by (simp add: raw_value_def Let_def n_def [symmetric])
  next
    case False
    have "int n < 2 ^ 8"
      using nm rawMax_width(2) [OF False] by simp
    then have "f32_to_uint8 (Finite q) = Some (word_of_int (int n))"
      using assms(2) by (simp add: f32_to_uint8_def fl)
    then show ?thesis
      using False assms(1) clamp_small_8 [OF nm rawMax_width(2) [OF False]]
      by (simp add: raw_value_def Let_def n_def [symmetric])
  qed
qed

lemma raw_values_at_bounds:
  "map (\<lambda>s. raw_value s (f32_lit (minValue s))) linear_settings
     = [Some 0, Some 300, Some 5, Some 36, Some 10, Some 1, Some 1, Some 0, Some 0, Some 4]"
  "map (\<lambda>s. raw_value s (f32_lit (maxValue s))) linear_settings
     = [Some 54, Some 1880, Some 500, Some 220, Some 330, Some 50, Some 25, Some 15, Some 1920,
        Some 84]"
  by code_simp+

lemma raw_value_at_bounds_defined:
  "raw_value s (f32_lit (minValue s)) \<noteq> None" "raw_value s (f32_lit (maxValue s)) \<noteq> None"
  using raw_values_at_bounds
  by (cases s; simp add: linear_settings_def)+

lemma bounds_in_range:
  "\<not> f32_less (f32_lit (minValue s)) (f32_lit (minValue s))"
  "\<not> f32_greater (f32_lit (minValue s)) (f32_lit (maxValue s))"
  "\<not> f32_less (f32_lit (maxValue s)) (f32_lit (minValue s))"
  "\<not> f32_greater (f32_lit (maxValue s)) (f32_lit (maxValue s))"
  by (cases s; simp add: literals literal_values f32_greater_def)+

lemma scenario_values:
  "raw_value ChargeLimitV (f32_lit (21 / 5)) = Some 420"
  "f32_mul (f32_of_int 420) (f32_lit (1 / 100)) = f32_lit (21 / 5)"
  by code_simp+

lemma roundtrip_generic:
  fixes c b lo hi x :: rat
  assumes sc: "f32_lit (scale s) = Finite c"
    and off: "offset s = 0 \<and> b = 0 \<or> offset s \<noteq> 0 \<and> f32_lit (offset s) = Finite b"
    and lo: "f32_lit (minValue s) = Finite lo" and hi: "f32_lit (maxValue s) = Finite hi"
    and c: "1 / 128 \<le> c" "c \<le> 1 / 4" and b: "0 \<le> b" "b \<le> lo" and h: "hi \<le> 22"
    and Q: "(((hi - b) * (1 + 1 / 2 ^ 24) + 1 / 2 ^ 150) / c) * (1 + 1 / 2 ^ 24) + 1 / 2 ^ 150
            < of_nat (rawMax s) + 1"
    and fld: "linear_field s = RegisterBits (Register a w) bits 0" "bits \<le> 8 * w" "bits \<le> 32"
      "rawMax s = 2 ^ bits - 1"
    and x: "\<not> f32_less (Finite x) (f32_lit (minValue s))"
      "\<not> f32_greater (Finite x) (f32_lit (maxValue s))"
    and d: "acks d"
  shows "\<exists>d' y. set_linear s (Finite x) d = Some (True, d') \<and> get_linear s d' = Finite y
           \<and> x - c - (93 / 2 ^ 24 + 3 / 2 ^ 150) < y \<and> y < x + 1 / 2 ^ 17"
proof -
  have cp: "0 < c" "c \<noteq> 0" using c(1) by simp_all
  have xr: "lo \<le> x" "x \<le> hi"
    using x by (simp_all add: lo hi f32_greater_def)
  have xb: "b \<le> x" "x \<le> 22" "0 \<le> x - b" "x - b \<le> 22"
    using xr b h by simp_all
  obtain t where tdef: "(if offset s = 0 then Finite x else f32_sub (Finite x) (f32_lit (offset s)))
                        = Finite t"
    and terr: "\<bar>t - (x - b)\<bar> \<le> \<bar>x - b\<bar> / 2 ^ 24 + 1 / 2 ^ 150" and t0: "0 \<le> t"
  proof (cases "offset s = 0")
    case True
    then have "b = 0" using off by simp
    then show ?thesis
      using True xb that [of x] by simp
  next
    case False
    then have ob: "f32_lit (offset s) = Finite b" using off by simp
    have "\<bar>x - b\<bar> \<le> 22" using xb by simp
    also have "\<dots> < (2::rat) ^ 127" by simp
    finally have "\<bar>x - b\<bar> < 2 ^ 127" .
    from round32_error [OF this] obtain t where r: "round32 (x - b) = Finite t"
      and e: "\<bar>t - (x - b)\<bar> \<le> \<bar>x - b\<bar> / 2 ^ 24 + 1 / 2 ^ 150" by blast
    have "of_int 0 \<le> t"
      using r _ _ _ by (rule round32_ge_int) (use xb in simp_all)
    then show ?thesis
      using False that [of t] r e by (simp add: ob)
  qed
  have tiny: "1 / 2 ^ 150 \<le> (1 / 2 :: rat)" by simp
  have t23: "t \<le> 23"
  proof -
    have "\<bar>x - b\<bar> \<le> 22" using xb by simp
    then have "\<bar>x - b\<bar> / 2 ^ 24 \<le> 22 / 2 ^ 24"
      by (rule divide_right_mono) simp
    also have "\<dots> \<le> (1 / 2 :: rat)" by simp
    finally show ?thesis using terr xb tiny unfolding abs_le_iff by linarith
  qed
  have tc: "0 \<le> t / c" "t / c < 2 ^ 24"
  proof -
    show "0 \<le> t / c" using t0 cp by simp
    have "t / c \<le> 23 / (1 / 128)"
      using t23 t0 c(1) by (intro frac_le) simp_all
    then show "t / c < 2 ^ 24" by simp
  qed
  have "\<bar>t / c\<bar> < 2 ^ 127"
  proof -
    have "\<bar>t / c\<bar> < 2 ^ 24" using tc by simp
    also have "\<dots> < (2::rat) ^ 127" by simp
    finally show ?thesis .
  qed
  from round32_error [OF this] obtain q where qr: "round32 (t / c) = Finite q"
    and qerr: "\<bar>q - t / c\<bar> \<le> \<bar>t / c\<bar> / 2 ^ 24 + 1 / 2 ^ 150" by blast
  have qfl: "of_int \<lfloor>t / c\<rfloor> \<le> q"
    using qr _ _ tc(2) by (rule round32_ge_int) (use tc in simp_all)
  define r where "r = \<lfloor>q\<rfloor>"
  note A = raw_arith [OF c b(1) xb(1,2) terr t0 qerr qfl r_def]
  have q0: "0 \<le> q" and r0: "0 \<le> r" using A(1,2) by simp_all
  have rmax: "r \<le> int (rawMax s)"
  proof -
    have "(x - b) * (1 + 1 / 2 ^ 24) \<le> (hi - b) * (1 + 1 / 2 ^ 24)"
      using xr by (intro mult_right_mono) simp_all
    then have "(((x - b) * (1 + 1 / 2 ^ 24) + 1 / 2 ^ 150) / c) * (1 + 1 / 2 ^ 24)
          \<le> (((hi - b) * (1 + 1 / 2 ^ 24) + 1 / 2 ^ 150) / c) * (1 + 1 / 2 ^ 24)"
      using cp by (intro mult_right_mono divide_right_mono) simp_all
    then have "(of_int r :: rat) < of_nat (rawMax s) + 1"
      using A(3) Q by linarith
    then have "(of_int r :: rat) < of_int (int (rawMax s) + 1)"
      by simp
    then have "r < int (rawMax s) + 1"
      by (simp only: of_int_less_iff)
    then show ?thesis by simp
  qed
  define n where "n = nat r"
  have n: "int n = r" "n \<le> rawMax s"
    using r0 rmax by (simp_all add: n_def)
  have div: "f32_div (if offset s = 0 then Finite x else f32_sub (Finite x) (f32_lit (offset s)))
               (f32_lit (scale s)) = Finite q"
    unfolding tdef sc using cp qr by simp
  have raw: "raw_value s (Finite x) = Some (of_nat n)"
    unfolding n_def r_def using div q0 n(2) [unfolded n_def r_def] by (rule raw_value_Some)
  define d' where "d' = snd (RegisterBits_write (RegisterBits (Register a w) bits 0) (of_nat n) d)"
  have set: "set_linear s (Finite x) d = Some (True, d')"
    using x by (simp add: set_linear_eq raw fld(1) d'_def)
  have n32: "unat (of_nat n :: 32 word) = n"
  proof -
    have "n < 2 ^ 16" using n(2) rawMax_width(1) [of s] by simp
    also have "\<dots> < (2::nat) ^ 32" by simp
    finally show ?thesis by (simp add: unat_of_nat)
  qed
  have "RegisterBits_read (RegisterBits (Register a w) bits 0) d' = of_nat n AND mask bits"
    unfolding d'_def using d fld(2,3) by (intro field_readback) simp_all
  also have "(of_nat n :: 32 word) AND mask bits = of_nat n"
    using n(2) by (intro small_word_is_its_field) (simp add: n32 fld(4))
  finally have rd: "RegisterBits_read (linear_field s) d' = of_nat n"
    by (simp add: fld(1))
  have ui: "uint (of_nat n :: 32 word) = r"
    using n32 n(1) by (simp only: uint_nat)
  have r24: "\<bar>r\<bar> < 2 ^ 24"
  proof -
    have "r < 2 ^ 16" using rmax rawMax_width(1) [of s] by simp
    then show ?thesis using r0 by simp
  qed
  have conv: "f32_of_int r = Finite (of_int r)"
    using round32_of_int [OF r24] by (simp add: f32_of_int_def)
  have rc24: "of_int r * c \<le> 24" "0 \<le> of_int r * c"
  proof -
    have "t / 2 ^ 24 \<le> 23 / 2 ^ 24"
      using t23 by (rule divide_right_mono) simp
    also have "\<dots> \<le> (1 / 2 :: rat)" by simp
    finally show "of_int r * c \<le> 24" using A(4) t23 tiny by linarith
    show "0 \<le> of_int r * c" using r0 cp by simp
  qed
  have "\<bar>of_int r * c\<bar> \<le> 24" using rc24 by simp
  also have "\<dots> < (2::rat) ^ 127" by simp
  finally have "\<bar>of_int r * c\<bar> < 2 ^ 127" .
  from round32_error [OF this] obtain g where gr: "round32 (of_int r * c) = Finite g"
    and gerr: "\<bar>g - of_int r * c\<bar> \<le> \<bar>of_int r * c\<bar> / 2 ^ 24 + 1 / 2 ^ 150" by blast
  have mul: "f32_mul (f32_of_int r) (f32_lit (scale s)) = Finite g"
    by (simp add: conv sc gr)
  have g25: "\<bar>g\<bar> \<le> 25"
  proof -
    have "\<bar>of_int r * c\<bar> \<le> 24" using rc24 by simp
    then have "\<bar>of_int r * c\<bar> / 2 ^ 24 \<le> 24 / 2 ^ 24"
      by (rule divide_right_mono) simp
    also have "\<dots> \<le> (1 / 2 :: rat)" by simp
    finally show ?thesis using gerr rc24 tiny unfolding abs_le_iff by linarith
  qed
  obtain res where get: "get_linear s d' = Finite res"
    and reserr: "\<bar>res - (g + b)\<bar> \<le> \<bar>g + b\<bar> / 2 ^ 24 + 1 / 2 ^ 150"
  proof (cases "offset s = 0")
    case True
    then have "b = 0" using off by simp
    then show ?thesis
      using True that [of g] by (simp add: get_linear_eq rd ui mul)
  next
    case False
    then have ob: "f32_lit (offset s) = Finite b" using off by simp
    have "\<bar>g + b\<bar> \<le> 47" using g25 xb b unfolding abs_le_iff by linarith
    also have "\<dots> < (2::rat) ^ 127" by simp
    finally have "\<bar>g + b\<bar> < 2 ^ 127" .
    from round32_error [OF this] obtain res where "round32 (g + b) = Finite res"
      and "\<bar>res - (g + b)\<bar> \<le> \<bar>g + b\<bar> / 2 ^ 24 + 1 / 2 ^ 150" by blast
    then show ?thesis
      using False that [of res] by (simp add: get_linear_eq rd ui mul ob)
  qed
  note B = roundtrip_arith [OF b(1) xb(1,2) t0 A(6,7) rc24(2) A(4,5) gerr reserr]
  show ?thesis
    using set get B by blast
qed


section \<open>The value handed to the field\<close>

text \<open>
  A call is accepted exactly when it hands a value to the write of its field, and the
  chip is then the one this write leaves.
\<close>

lemma run_written_raw:
  "run h c d = Some (True, d')
     \<longleftrightarrow> (\<exists>data. written_raw h c = Some data \<and> d' = snd (RegisterBits_write (target c) data d))"
proof (cases c)
  case (Linear s v)
  then show ?thesis
    by (auto simp add: written_raw_def set_linear_eq split: option.splits)
next
  case (Enumerated s x)
  then show ?thesis
    by (auto simp add: written_raw_def set_enum_eq)
next
  case (Flag f b)
  then show ?thesis
    by (auto simp add: written_raw_def set_flag_eq)
next
  case (Inverted f b)
  then show ?thesis
    by (auto simp add: written_raw_def set_inverted_eq)
next
  case ResetWDT
  then show ?thesis
    by (auto simp add: written_raw_def action_eq simp del: target.simps)
next
  case Reset
  then show ?thesis
    by (auto simp add: written_raw_def action_eq simp del: target.simps)
qed

text \<open>
  Where the setter clamps (the linear setters), compares the ordinal with a last
  enumerator that the field can hold, or hands \<open>0\<close> or \<open>1\<close> to a one-bit field, the value
  handed is at most \<open>2^bits - 1\<close>.
\<close>

lemma flag_field_shape:
  assumes "flag_field f = RegisterBits (Register a w) n s"
  shows "n = 1"
  using assms by (cases f) auto

lemma written_raw_within_field:
  assumes "written_raw h c = Some data"
    and "target c = RegisterBits (Register a w) bits shift"
    and "\<And>s x m. c = Enumerated s x \<Longrightarrow> \<exists>m. enum_max h s = Some m \<and> m \<le> 2 ^ bits - 1"
  shows "unat data \<le> 2 ^ bits - 1"
proof (cases c)
  case (Linear s v)
  then have r: "raw_value s v = Some data"
    using assms(1) by (simp add: written_raw_def split: if_splits)
  have "rawMax s = 2 ^ bits - 1"
    using linear_field_shape [of s a w bits shift] assms(2) Linear by simp
  then show ?thesis
    using raw_value_bound [OF r] by simp
next
  case (Enumerated s x)
  from assms(3) [OF Enumerated] obtain m where m: "enum_max h s = Some m" "m \<le> 2 ^ bits - 1"
    by blast
  from assms(1) Enumerated m have x: "x \<le> m" and data: "data = ucast (of_nat x :: 8 word)"
    by (auto simp add: written_raw_def split: if_splits)
  have "unat data = x mod 256"
    by (simp add: data unat_ucast_8_32 unat_of_nat)
  also have "\<dots> \<le> x" by simp
  finally show ?thesis using x m(2) by simp
next
  case (Flag f b)
  then have "bits = 1"
    using assms(2) flag_field_shape [of f a w bits shift] by simp
  then show ?thesis
    using assms(1) Flag by (cases b) (auto simp add: written_raw_def)
next
  case (Inverted f b)
  then have "bits = 1"
    using assms(2) inverted_field_shape [of f a w bits shift] by simp
  then show ?thesis
    using assms(1) Inverted by (cases b) (auto simp add: written_raw_def)
next
  case ResetWDT
  then show ?thesis
    using assms(1,2) by (auto simp add: written_raw_def)
next
  case Reset
  then show ?thesis
    using assms(1,2) by (auto simp add: written_raw_def)
qed

section \<open>The range check of the linear setters\<close>

text \<open>
  C1. Every linear setter returns false on an input below its lower bound or above its
  upper bound, and then leaves the chip as it was: no write is issued and no register
  changes. On an input equal to the lower or to the upper bound it returns true and issues
  one write to its register. The bounds are the binary32 values of the literals in the
  code.
\<close>

theorem linear_setter_range_check:
  assumes "linear_field s = RegisterBits (Register a w) bits shift"
  shows "(f32_less v (f32_lit (minValue s)) \<or> f32_greater v (f32_lit (maxValue s))
            \<longrightarrow> set_linear s v d = Some (False, d))
       \<and> (v = f32_lit (minValue s) \<or> v = f32_lit (maxValue s)
            \<longrightarrow> (\<exists>d' x. set_linear s v d = Some (True, d')
                   \<and> bus_writes d' = bus_writes d @ [(a, x)]))"
proof -
  have accepted: "\<exists>d' x. set_linear s v d = Some (True, d')
                   \<and> bus_writes d' = bus_writes d @ [(a, x)]"
    if "v = f32_lit (minValue s) \<or> v = f32_lit (maxValue s)"
  proof -
    from that have "\<not> f32_less v (f32_lit (minValue s))"
      and "\<not> f32_greater v (f32_lit (maxValue s))" and "raw_value s v \<noteq> None"
      using bounds_in_range [of s] raw_value_at_bounds_defined [of s] by auto
    then obtain r where "set_linear s v d
        = Some (True, snd (RegisterBits_write (RegisterBits (Register a w) bits shift) r d))"
      by (auto simp add: set_linear_eq assms)
    then show ?thesis
      by (simp add: field_write_log)
  qed
  then show ?thesis
    by (simp add: set_linear_eq)
qed

theorem linear_setter_range_check_witness:
  "linear_field ChargeLimitV = RegisterBits (Register BQ25798_REG_CHARGE_VOLTAGE_LIMIT 2) 11 0
   \<and> f32_less (Finite 2) (f32_lit (minValue ChargeLimitV))
   \<and> set_linear ChargeLimitV (Finite 2) chip0 = Some (False, chip0)
   \<and> f32_greater (Finite 19) (f32_lit (maxValue ChargeLimitV))
   \<and> set_linear ChargeLimitV (Finite 19) chip0 = Some (False, chip0)
   \<and> (\<exists>d' x. set_linear ChargeLimitV (f32_lit (minValue ChargeLimitV)) chip0 = Some (True, d')
          \<and> bus_writes d' = bus_writes chip0 @ [(BQ25798_REG_CHARGE_VOLTAGE_LIMIT, x)])
   \<and> (\<exists>d' x. set_linear ChargeLimitV (f32_lit (maxValue ChargeLimitV)) chip0 = Some (True, d')
          \<and> bus_writes d' = bus_writes chip0 @ [(BQ25798_REG_CHARGE_VOLTAGE_LIMIT, x)])"
proof -
  have f: "linear_field ChargeLimitV
           = RegisterBits (Register BQ25798_REG_CHARGE_VOLTAGE_LIMIT 2) 11 0"
    by simp
  have lo: "f32_less (Finite 2) (f32_lit (minValue ChargeLimitV))"
    and hi: "f32_greater (Finite 19) (f32_lit (maxValue ChargeLimitV))"
    by (simp_all add: literals f32_greater_def)
  show ?thesis
    using f lo hi
      linear_setter_range_check [OF f, of "Finite 2" chip0]
      linear_setter_range_check [OF f, of "Finite 19" chip0]
      linear_setter_range_check [OF f, of "f32_lit (minValue ChargeLimitV)" chip0]
      linear_setter_range_check [OF f, of "f32_lit (maxValue ChargeLimitV)" chip0]
    by simp
qed


section \<open>Setting and reading back\<close>

text \<open>
  C2, as stated: after a linear setter has accepted \<open>v\<close>, the getter returns a value
  within one encoding step of \<open>v\<close>. In binary32 this fails by a rounding error. The
  largest \<^verbatim>\<open>float\<close> below 16.12 is \<open>4225761 / 262144\<close>; \<^verbatim>\<open>setChargeLimitV\<close> accepts
  it and writes 1611, and \<^verbatim>\<open>getChargeLimitV\<close> returns \<open>1611 * 0.01f\<close>, rounded to
  \<open>8446279 / 524288\<close>, which lies \<open>0.01 + 3 / 13107200\<close> below the input.
\<close>

theorem roundtrip_exceeds_one_step:
  "round32 (4225761 / 262144) = Finite (4225761 / 262144)
   \<and> acks chip0
   \<and> \<not> f32_less (Finite (4225761 / 262144)) (f32_lit (minValue ChargeLimitV))
   \<and> \<not> f32_greater (Finite (4225761 / 262144)) (f32_lit (maxValue ChargeLimitV))
   \<and> raw_value ChargeLimitV (Finite (4225761 / 262144)) = Some 1611
   \<and> fst (the (set_linear ChargeLimitV (Finite (4225761 / 262144)) chip0)) = True
   \<and> get_linear ChargeLimitV
        (snd (the (set_linear ChargeLimitV (Finite (4225761 / 262144)) chip0)))
      = Finite (8446279 / 524288)
   \<and> scale ChargeLimitV < \<bar>8446279 / 524288 - 4225761 / 262144\<bar>"
  by code_simp

text \<open>
  C2, amended: on a chip that answers, every linear setter accepts every finite input
  between its bounds, and the getter then returns a value above the input less one step
  less \<open>2^-17\<close> and below the input plus \<open>2^-17\<close>: within one encoding step, up to the
  rounding of the single-precision operations.
\<close>

theorem roundtrip_within_step_and_rounding:
  assumes "acks d"
    and "\<not> f32_less (Finite x) (f32_lit (minValue s))"
    and "\<not> f32_greater (Finite x) (f32_lit (maxValue s))"
  shows "\<exists>d' y. set_linear s (Finite x) d = Some (True, d') \<and> get_linear s d' = Finite y
           \<and> x - scale s - 1 / 2 ^ 17 < y \<and> y < x + 1 / 2 ^ 17"
proof (cases s)
  case MinSystemV
  have k: "(1 / 4 :: rat) + (93 / 2 ^ 24 + 3 / 2 ^ 150) \<le> scale s + 1 / 2 ^ 17"
    by (simp add: MinSystemV)
  have "\<exists>d' y. set_linear s (Finite x) d = Some (True, d') \<and> get_linear s d' = Finite y
           \<and> x - (1 / 4) - (93 / 2 ^ 24 + 3 / 2 ^ 150) < y \<and> y < x + 1 / 2 ^ 17"
    by (rule roundtrip_generic [where b = "5 / 2" and lo = "5 / 2" and hi = 16
          and a = BQ25798_REG_MINIMAL_SYSTEM_VOLTAGE and w = 1 and bits = 6])
      (use assms in \<open>simp_all add: MinSystemV literals literal_values\<close>)
  then show ?thesis
    using k by (elim exE conjE, intro exI conjI) (assumption, assumption, linarith, assumption)
next
  case ChargeLimitV
  have k: "(5368709 / 536870912 :: rat) + (93 / 2 ^ 24 + 3 / 2 ^ 150) \<le> scale s + 1 / 2 ^ 17"
    by (simp add: ChargeLimitV)
  have "\<exists>d' y. set_linear s (Finite x) d = Some (True, d') \<and> get_linear s d' = Finite y
           \<and> x - (5368709 / 536870912) - (93 / 2 ^ 24 + 3 / 2 ^ 150) < y \<and> y < x + 1 / 2 ^ 17"
    by (rule roundtrip_generic [where b = 0 and lo = 3 and hi = "4928307 / 262144"
          and a = BQ25798_REG_CHARGE_VOLTAGE_LIMIT and w = 2 and bits = 11])
      (use assms in \<open>simp_all add: ChargeLimitV literals literal_values\<close>)
  then show ?thesis
    using k by (elim exE conjE, intro exI conjI) (assumption, assumption, linarith, assumption)
next
  case ChargeLimitA
  have k: "(5368709 / 536870912 :: rat) + (93 / 2 ^ 24 + 3 / 2 ^ 150) \<le> scale s + 1 / 2 ^ 17"
    by (simp add: ChargeLimitA)
  have "\<exists>d' y. set_linear s (Finite x) d = Some (True, d') \<and> get_linear s d' = Finite y
           \<and> x - (5368709 / 536870912) - (93 / 2 ^ 24 + 3 / 2 ^ 150) < y \<and> y < x + 1 / 2 ^ 17"
    by (rule roundtrip_generic [where b = 0 and lo = "13421773 / 268435456" and hi = 5
          and a = BQ25798_REG_CHARGE_CURRENT_LIMIT and w = 2 and bits = 9])
      (use assms in \<open>simp_all add: ChargeLimitA literals literal_values\<close>)
  then show ?thesis
    using k by (elim exE conjE, intro exI conjI) (assumption, assumption, linarith, assumption)
next
  case InputLimitV
  have k: "(13421773 / 134217728 :: rat) + (93 / 2 ^ 24 + 3 / 2 ^ 150) \<le> scale s + 1 / 2 ^ 17"
    by (simp add: InputLimitV)
  have "\<exists>d' y. set_linear s (Finite x) d = Some (True, d') \<and> get_linear s d' = Finite y
           \<and> x - (13421773 / 134217728) - (93 / 2 ^ 24 + 3 / 2 ^ 150) < y \<and> y < x + 1 / 2 ^ 17"
    by (rule roundtrip_generic [where b = 0 and lo = "7549747 / 2097152" and hi = 22
          and a = BQ25798_REG_INPUT_VOLTAGE_LIMIT and w = 1 and bits = 8])
      (use assms in \<open>simp_all add: InputLimitV literals literal_values\<close>)
  then show ?thesis
    using k by (elim exE conjE, intro exI conjI) (assumption, assumption, linarith, assumption)
next
  case InputLimitA
  have k: "(5368709 / 536870912 :: rat) + (93 / 2 ^ 24 + 3 / 2 ^ 150) \<le> scale s + 1 / 2 ^ 17"
    by (simp add: InputLimitA)
  have "\<exists>d' y. set_linear s (Finite x) d = Some (True, d') \<and> get_linear s d' = Finite y
           \<and> x - (5368709 / 536870912) - (93 / 2 ^ 24 + 3 / 2 ^ 150) < y \<and> y < x + 1 / 2 ^ 17"
    by (rule roundtrip_generic [where b = 0 and lo = "13421773 / 134217728" and hi = "13841203 / 4194304"
          and a = BQ25798_REG_INPUT_CURRENT_LIMIT and w = 2 and bits = 9])
      (use assms in \<open>simp_all add: InputLimitA literals literal_values\<close>)
  then show ?thesis
    using k by (elim exE conjE, intro exI conjI) (assumption, assumption, linarith, assumption)
next
  case PrechargeLimitA
  have k: "(5368709 / 134217728 :: rat) + (93 / 2 ^ 24 + 3 / 2 ^ 150) \<le> scale s + 1 / 2 ^ 17"
    by (simp add: PrechargeLimitA)
  have "\<exists>d' y. set_linear s (Finite x) d = Some (True, d') \<and> get_linear s d' = Finite y
           \<and> x - (5368709 / 134217728) - (93 / 2 ^ 24 + 3 / 2 ^ 150) < y \<and> y < x + 1 / 2 ^ 17"
    by (rule roundtrip_generic [where b = 0 and lo = "5368709 / 134217728" and hi = 2
          and a = BQ25798_REG_PRECHARGE_CONTROL and w = 1 and bits = 6])
      (use assms in \<open>simp_all add: PrechargeLimitA literals literal_values\<close>)
  then show ?thesis
    using k by (elim exE conjE, intro exI conjI) (assumption, assumption, linarith, assumption)
next
  case TerminationA
  have k: "(5368709 / 134217728 :: rat) + (93 / 2 ^ 24 + 3 / 2 ^ 150) \<le> scale s + 1 / 2 ^ 17"
    by (simp add: TerminationA)
  have "\<exists>d' y. set_linear s (Finite x) d = Some (True, d') \<and> get_linear s d' = Finite y
           \<and> x - (5368709 / 134217728) - (93 / 2 ^ 24 + 3 / 2 ^ 150) < y \<and> y < x + 1 / 2 ^ 17"
    by (rule roundtrip_generic [where b = 0 and lo = "5368709 / 134217728" and hi = 1
          and a = BQ25798_REG_TERMINATION_CONTROL and w = 1 and bits = 5])
      (use assms in \<open>simp_all add: TerminationA literals literal_values\<close>)
  then show ?thesis
    using k by (elim exE conjE, intro exI conjI) (assumption, assumption, linarith, assumption)
next
  case RechargeThreshOffsetV
  have k: "(13421773 / 268435456 :: rat) + (93 / 2 ^ 24 + 3 / 2 ^ 150) \<le> scale s + 1 / 2 ^ 17"
    by (simp add: RechargeThreshOffsetV)
  have "\<exists>d' y. set_linear s (Finite x) d = Some (True, d') \<and> get_linear s d' = Finite y
           \<and> x - (13421773 / 268435456) - (93 / 2 ^ 24 + 3 / 2 ^ 150) < y \<and> y < x + 1 / 2 ^ 17"
    by (rule roundtrip_generic [where b = "13421773 / 268435456" and lo = "13421773 / 268435456" and hi = "13421773 / 16777216"
          and a = BQ25798_REG_RECHARGE_CONTROL and w = 1 and bits = 4])
      (use assms in \<open>simp_all add: RechargeThreshOffsetV literals literal_values\<close>)
  then show ?thesis
    using k by (elim exE conjE, intro exI conjI) (assumption, assumption, linarith, assumption)
next
  case OTGV
  have k: "(5368709 / 536870912 :: rat) + (93 / 2 ^ 24 + 3 / 2 ^ 150) \<le> scale s + 1 / 2 ^ 17"
    by (simp add: OTGV)
  have "\<exists>d' y. set_linear s (Finite x) d = Some (True, d') \<and> get_linear s d' = Finite y
           \<and> x - (5368709 / 536870912) - (93 / 2 ^ 24 + 3 / 2 ^ 150) < y \<and> y < x + 1 / 2 ^ 17"
    by (rule roundtrip_generic [where b = "11744051 / 4194304" and lo = "11744051 / 4194304" and hi = 22
          and a = BQ25798_REG_VOTG_REGULATION and w = 2 and bits = 11])
      (use assms in \<open>simp_all add: OTGV literals literal_values\<close>)
  then show ?thesis
    using k by (elim exE conjE, intro exI conjI) (assumption, assumption, linarith, assumption)
next
  case OTGLimitA
  have k: "(5368709 / 134217728 :: rat) + (93 / 2 ^ 24 + 3 / 2 ^ 150) \<le> scale s + 1 / 2 ^ 17"
    by (simp add: OTGLimitA)
  have "\<exists>d' y. set_linear s (Finite x) d = Some (True, d') \<and> get_linear s d' = Finite y
           \<and> x - (5368709 / 134217728) - (93 / 2 ^ 24 + 3 / 2 ^ 150) < y \<and> y < x + 1 / 2 ^ 17"
    by (rule roundtrip_generic [where b = 0 and lo = "5368709 / 33554432" and hi = "14092861 / 4194304"
          and a = BQ25798_REG_IOTG_REGULATION and w = 1 and bits = 7])
      (use assms in \<open>simp_all add: OTGLimitA literals literal_values\<close>)
  then show ?thesis
    using k by (elim exE conjE, intro exI conjI) (assumption, assumption, linarith, assumption)
qed

theorem roundtrip_within_step_and_rounding_witness:
  "acks chip0
   \<and> \<not> f32_less (Finite (4225761 / 262144)) (f32_lit (minValue ChargeLimitV))
   \<and> \<not> f32_greater (Finite (4225761 / 262144)) (f32_lit (maxValue ChargeLimitV))
   \<and> (\<exists>d' y. set_linear ChargeLimitV (Finite (4225761 / 262144)) chip0 = Some (True, d')
          \<and> get_linear ChargeLimitV d' = Finite y
          \<and> 4225761 / 262144 - scale ChargeLimitV - 1 / 2 ^ 17 < y
          \<and> y < 4225761 / 262144 + 1 / 2 ^ 17)"
proof -
  have a: "acks chip0" by (simp add: chip0_def)
  have lo: "\<not> f32_less (Finite (4225761 / 262144)) (f32_lit (minValue ChargeLimitV))"
    and hi: "\<not> f32_greater (Finite (4225761 / 262144)) (f32_lit (maxValue ChargeLimitV))"
    by (simp_all add: literals f32_greater_def)
  show ?thesis
    using a lo hi roundtrip_within_step_and_rounding [OF a lo hi] by blast
qed


section \<open>Enumerated setters\<close>

text \<open>
  C3. Every enumerated setter returns false and performs no write for an ordinal beyond
  the last enumerator of its field. The code of \<^verbatim>\<open>setVINDPM_VOCpercent\<close> (and of
  \<^verbatim>\<open>setVOCdelay\<close>, \<^verbatim>\<open>setVOCrate\<close>, \<^verbatim>\<open>setBatDischargeA\<close>,
  \<^verbatim>\<open>setThermRegulationThresh\<close>, \<^verbatim>\<open>setThermShutdownThresh\<close>) has no such
  check: with the ordinal 8, which no enumerator of the three-bit field can have, it
  returns true and overwrites the field (pattern \<open>0xA5\<close>, field 5, becomes \<open>0x05\<close>, field
  0), where \<^verbatim>\<open>setWDT\<close>, on a field of the same width, returns false and writes
  nothing.
\<close>

theorem unchecked_enumerated_setter_accepts_any_ordinal:
  "fst (setVINDPM_VOCpercent 8 chip0) = True
   \<and> regs chip0 BQ25798_REG_MPPT_CONTROL = 0xA5
   \<and> regs (snd (setVINDPM_VOCpercent 8 chip0)) BQ25798_REG_MPPT_CONTROL = 0x05
   \<and> bus_writes (snd (setVINDPM_VOCpercent 8 chip0)) = [(BQ25798_REG_MPPT_CONTROL, 0x05)]
   \<and> fst (setWDT header0 8 chip0) = False
   \<and> bus_writes (snd (setWDT header0 8 chip0)) = []"
  by code_simp

section \<open>Bits outside the field\<close>

text \<open>
  C4. Whatever the setter, its argument and the contents of the register, a call leaves
  every bit of the register outside the field (below its offset, or from offset plus
  width on) as it was.
\<close>

theorem field_write_keeps_other_bits:
  assumes "run h c d = Some (ok, d')"
    and "target c = RegisterBits (Register a w) bits shift"
    and "i < 8 * w"
    and "i < shift \<or> shift + bits \<le> i"
  shows "bit (regs d' a) i = bit (regs d a) i"
  using run_cases [OF assms(1)] regs_frame [OF assms(3,4)] assms(2) by auto

theorem field_write_keeps_other_bits_witness:
  "\<exists>d'. run header0 (Enumerated VOCdelay 7) chip0 = Some (True, d')
     \<and> target (Enumerated VOCdelay 7) = RegisterBits (Register BQ25798_REG_MPPT_CONTROL 1) 2 3
     \<and> bit (regs d' BQ25798_REG_MPPT_CONTROL) 5 = bit (regs chip0 BQ25798_REG_MPPT_CONTROL) 5
     \<and> bit (regs d' BQ25798_REG_MPPT_CONTROL) 3 \<noteq> bit (regs chip0 BQ25798_REG_MPPT_CONTROL) 3"
proof -
  define d' where "d' = snd (setVOCdelay 7 chip0)"
  have r: "run header0 (Enumerated VOCdelay 7) chip0 = Some (True, d')"
    by (simp add: d'_def setVOCdelay_def Let_def)
  have t: "target (Enumerated VOCdelay 7) = RegisterBits (Register BQ25798_REG_MPPT_CONTROL 1) 2 3"
    by simp
  have c: "bit (regs (snd (setVOCdelay 7 chip0)) BQ25798_REG_MPPT_CONTROL) 3
           \<noteq> bit (regs chip0 BQ25798_REG_MPPT_CONTROL) 3"
    by code_simp
  have "bit (regs d' BQ25798_REG_MPPT_CONTROL) 5 = bit (regs chip0 BQ25798_REG_MPPT_CONTROL) 5"
    by (rule field_write_keeps_other_bits [OF r t]) simp_all
  then show ?thesis
    using r t c by (auto simp add: d'_def)
qed

section \<open>Initialisation\<close>

text \<open>
  C5. \<^verbatim>\<open>begin\<close> returns false when the chip does not answer or when bits 5 to 3 of
  the part information register are not \<open>011\<close>, and then leaves the chip as it was: no
  reset, no write. Otherwise it returns true after the reset, whose write sets bit 6 of
  the termination control register.
\<close>

theorem begin_checks_part_number:
  "(\<not> acks d \<or> drop_bit 3 (regs d BQ25798_REG_PART_INFORMATION) AND mask 3 \<noteq> 3
      \<longrightarrow> begin_BQ25798 d = (False, d))
   \<and> (acks d \<and> drop_bit 3 (regs d BQ25798_REG_PART_INFORMATION) AND mask 3 = 3
      \<longrightarrow> begin_BQ25798 d = (True, snd (reset d))
          \<and> (\<exists>x. bus_writes (snd (begin_BQ25798 d))
                   = bus_writes d @ [(BQ25798_REG_TERMINATION_CONTROL, x)] \<and> bit x 6))"
proof -
  have test: "((ucast (Register_read (Register BQ25798_REG_PART_INFORMATION 1) d) :: 8 word)
                AND 0x38 = 0x18)
              = (drop_bit 3 (regs d BQ25798_REG_PART_INFORMATION) AND mask 3 = 3)"
    if "acks d"
    using that part_number_test [of "regs d BQ25798_REG_PART_INFORMATION"]
    by (simp add: Register_read_def)
  have silent: "begin_BQ25798 d = (False, d)" if "\<not> acks d"
    using that by (simp add: begin_BQ25798_def I2CDevice_begin_def)
  have other: "begin_BQ25798 d = (False, d)"
    if "acks d" and "drop_bit 3 (regs d BQ25798_REG_PART_INFORMATION) AND mask 3 \<noteq> 3"
    using that test by (simp add: begin_BQ25798_def I2CDevice_begin_def Let_def)
  have genuine: "begin_BQ25798 d = (True, snd (reset d))"
    if "acks d" and "drop_bit 3 (regs d BQ25798_REG_PART_INFORMATION) AND mask 3 = 3"
    using that test by (simp add: begin_BQ25798_def I2CDevice_begin_def Let_def)
  show ?thesis
    using silent other genuine reset_bus_write [of d] by auto
qed

theorem begin_checks_part_number_witness:
  "begin_BQ25798 silent_chip = (False, silent_chip)
   \<and> begin_BQ25798 chip0 = (False, chip0)
   \<and> fst (begin_BQ25798 genuine_chip) = True
   \<and> (\<exists>x. bus_writes (snd (begin_BQ25798 genuine_chip))
             = bus_writes genuine_chip @ [(BQ25798_REG_TERMINATION_CONTROL, x)] \<and> bit x 6)"
proof -
  have 1: "\<not> acks silent_chip"
    by (simp add: silent_chip_def)
  have 2: "acks chip0 \<and> drop_bit 3 (regs chip0 BQ25798_REG_PART_INFORMATION) AND mask 3 \<noteq> 3"
    by code_simp
  have 3: "acks genuine_chip
           \<and> drop_bit 3 (regs genuine_chip BQ25798_REG_PART_INFORMATION) AND mask 3 = 3"
    by code_simp
  show ?thesis
    using 1 2 3 begin_checks_part_number [of silent_chip] begin_checks_part_number [of chip0]
      begin_checks_part_number [of genuine_chip]
    by auto
qed

section \<open>Inverted flags\<close>

text \<open>
  C6. For every flag that the chip stores inverted, on a chip that answers: the setter
  returns true and leaves the physical bit at 0 for \<open>true\<close> and at 1 for \<open>false\<close>; the
  getter returns true exactly when the physical bit is 0; and the getter returns what the
  setter was given.
\<close>

theorem inverted_flag_logical_sense:
  assumes "acks d" and "inverted_field f = RegisterBits (Register a w) n s"
  shows "fst (set_inverted f b d) = True
         \<and> bit (regs (snd (set_inverted f b d)) a) s = (\<not> b)
         \<and> get_inverted f d = (\<not> bit (regs d a) s)
         \<and> get_inverted f (snd (set_inverted f b d)) = b"
proof -
  have shape: "w = 1" "n = 1" "s < 8"
    using inverted_field_shape [OF assms(2)] by simp_all
  define d' where "d' = snd (set_inverted f b d)"
  have d': "d' = snd (RegisterBits_write (RegisterBits (Register a 1) 1 s) (of_bool (\<not> b)) d)"
    by (simp add: d'_def set_inverted_eq assms(2) shape)
  have a': "acks d'"
    using assms(1) by (simp add: d' RegisterBits_write_value Register_write_simps)
  have "RegisterBits_read (RegisterBits (Register a 1) 1 s) d' = of_bool (\<not> b) AND mask 1"
    unfolding d' using assms(1) shape(3) by (intro field_readback) simp_all
  then have rb: "(RegisterBits_read (RegisterBits (Register a 1) 1 s) d' = 0) = b"
    by (cases b) simp_all
  have phys: "(RegisterBits_read (RegisterBits (Register a 1) 1 s) e = 0) = (\<not> bit (regs e a) s)"
    if "acks e" for e
    using that shape(3) by (intro one_bit_field) simp_all
  have get: "get_inverted f e = (RegisterBits_read (RegisterBits (Register a 1) 1 s) e = 0)" for e
    by (simp add: get_inverted_eq assms(2) shape)
  have "fst (set_inverted f b d) = True"
    by (simp add: set_inverted_eq)
  moreover have "bit (regs d' a) s = (\<not> b)"
    using rb phys [OF a'] by simp
  moreover have "get_inverted f d = (\<not> bit (regs d a) s)"
    using phys [OF assms(1)] get [of d] by simp
  moreover have "get_inverted f d' = b"
    using rb get [of d'] by simp
  ultimately show ?thesis
    unfolding d'_def by simp
qed

theorem inverted_flag_logical_sense_witness:
  "acks chip0
   \<and> inverted_field ACenable = RegisterBits (Register BQ25798_REG_CHARGER_CONTROL_3 1) 1 7
   \<and> bit (regs chip0 BQ25798_REG_CHARGER_CONTROL_3) 7
   \<and> \<not> get_inverted ACenable chip0
   \<and> \<not> bit (regs (snd (set_inverted ACenable True chip0)) BQ25798_REG_CHARGER_CONTROL_3) 7
   \<and> get_inverted ACenable (snd (set_inverted ACenable True chip0))
   \<and> bit (regs (snd (set_inverted ACenable False chip0)) BQ25798_REG_CHARGER_CONTROL_3) 7"
proof -
  have a: "acks chip0" by (simp add: chip0_def)
  have f: "inverted_field ACenable = RegisterBits (Register BQ25798_REG_CHARGER_CONTROL_3 1) 1 7"
    by simp
  have b: "bit (regs chip0 BQ25798_REG_CHARGER_CONTROL_3) 7" by code_simp
  show ?thesis
    using a f b inverted_flag_logical_sense [OF a f, of True]
      inverted_flag_logical_sense [OF a f, of False]
    by simp
qed

section \<open>The charge voltage scenario\<close>

text \<open>
  C7. On a chip that answers, \<^verbatim>\<open>setChargeLimitV(4.2)\<close> returns true and writes the raw
  value 420, the integer part of \<open>4.2f / 0.01f\<close> in binary32; the field then reads 420 and
  \<^verbatim>\<open>getChargeLimitV\<close> returns \<open>420 * 0.01f\<close>, which is the binary32 number \<open>4.2f\<close>.
  \<^verbatim>\<open>setChargeLimitV(2.0)\<close> returns false and leaves the chip as it was.
\<close>

theorem charge_limit_scenario:
  assumes "acks d"
  shows "\<exists>d'. setChargeLimitV (f32_lit (42 / 10)) d = Some (True, d')
           \<and> raw_value ChargeLimitV (f32_lit (42 / 10)) = Some 420
           \<and> RegisterBits_read (RegisterBits (Register BQ25798_REG_CHARGE_VOLTAGE_LIMIT 2) 11 0) d'
               = 420
           \<and> getChargeLimitV d' = f32_lit (42 / 10)
           \<and> setChargeLimitV (f32_lit 2) d = Some (False, d)"
proof -
  define d' where "d' = snd (RegisterBits_write
      (RegisterBits (Register BQ25798_REG_CHARGE_VOLTAGE_LIMIT 2) 11 0) 420 d)"
  have set: "setChargeLimitV (f32_lit (42 / 10)) d = Some (True, d')"
    using set_linear_eq [of ChargeLimitV "f32_lit (42 / 10)" d]
    by (simp add: scenario_values d'_def) (simp add: literals f32_greater_def)
  have "RegisterBits_read (RegisterBits (Register BQ25798_REG_CHARGE_VOLTAGE_LIMIT 2) 11 0) d'
        = 420 AND mask 11"
    unfolding d'_def using assms by (rule field_readback) simp_all
  also have "(420 :: 32 word) AND mask 11 = 420"
    by (rule small_word_is_its_field) simp
  finally have rd: "RegisterBits_read
      (RegisterBits (Register BQ25798_REG_CHARGE_VOLTAGE_LIMIT 2) 11 0) d' = 420" .
  have get: "getChargeLimitV d' = f32_lit (42 / 10)"
    using get_linear_eq [of ChargeLimitV d'] by (simp add: rd scenario_values)
  have rej: "setChargeLimitV (f32_lit 2) d = Some (False, d)"
    using set_linear_eq [of ChargeLimitV "f32_lit 2" d] by (simp add: literals)
  show ?thesis
    using set rd get rej by (simp add: scenario_values)
qed

theorem charge_limit_scenario_witness:
  "acks chip0
   \<and> (\<exists>d'. setChargeLimitV (f32_lit (42 / 10)) chip0 = Some (True, d')
           \<and> RegisterBits_read (RegisterBits (Register BQ25798_REG_CHARGE_VOLTAGE_LIMIT 2) 11 0) d'
               = 420
           \<and> getChargeLimitV d' = f32_lit (42 / 10))
   \<and> setChargeLimitV (f32_lit 2) chip0 = Some (False, chip0)"
proof -
  have a: "acks chip0" by (simp add: chip0_def)
  show ?thesis
    using a charge_limit_scenario [OF a] by blast
qed

section \<open>The value written to the field\<close>


section \<open>Reset\<close>

text \<open>
  C9. \<^verbatim>\<open>reset\<close> returns true for every chip, whether or not the write goes through
  (the write reports \<open>acks d\<close>, which \<^verbatim>\<open>reset\<close> drops). The write it issues goes to
  the termination control register, has bit 6 set and the other bits as read; on a chip
  that answers, bit 6 of the register is set afterwards.
\<close>

theorem reset_returns_true_whatever_the_bus_does:
  "fst (reset d) = True
   \<and> fst (RegisterBits_write (RegisterBits (Register BQ25798_REG_TERMINATION_CONTROL 1) 1 6) 1 d)
       = acks d
   \<and> (\<exists>x. bus_writes (snd (reset d)) = bus_writes d @ [(BQ25798_REG_TERMINATION_CONTROL, x)]
          \<and> bit x 6
          \<and> (\<forall>i. i \<noteq> 6 \<longrightarrow> bit x i
                = (i < 8 \<and> bit (Register_read (Register BQ25798_REG_TERMINATION_CONTROL 1) d) i)))
   \<and> (acks d \<longrightarrow> bit (regs (snd (reset d)) BQ25798_REG_TERMINATION_CONTROL) 6)"
proof -
  have "bit (regs (snd (reset d)) BQ25798_REG_TERMINATION_CONTROL) 6" if a: "acks d"
  proof -
    have "RegisterBits_read (RegisterBits (Register BQ25798_REG_TERMINATION_CONTROL 1) 1 6)
            (snd (reset d)) = 1 AND mask 1"
      unfolding action_eq target.simps snd_conv using a by (rule field_readback) simp_all
    then have "RegisterBits_read (RegisterBits (Register BQ25798_REG_TERMINATION_CONTROL 1) 1 6)
            (snd (reset d)) \<noteq> 0"
      by simp
    moreover have "acks (snd (reset d))"
      using a by (simp add: action_eq RegisterBits_write_value Register_write_simps)
    ultimately show ?thesis
      using one_bit_field [of "snd (reset d)" 6 1 BQ25798_REG_TERMINATION_CONTROL] by simp
  qed
  then show ?thesis
    using reset_bus_write [of d]
    by (simp add: action_eq RegisterBits_write_value Register_write_simps)
qed

theorem reset_returns_true_witness:
  "fst (reset silent_chip) = True
   \<and> \<not> fst (RegisterBits_write (RegisterBits (Register BQ25798_REG_TERMINATION_CONTROL 1) 1 6) 1
            silent_chip)
   \<and> acks chip0 \<and> bit (regs (snd (reset chip0)) BQ25798_REG_TERMINATION_CONTROL) 6"
proof -
  have "acks chip0" and "\<not> acks silent_chip"
    by (simp_all add: chip0_def silent_chip_def)
  then show ?thesis
    using reset_returns_true_whatever_the_bus_does [of silent_chip]
      reset_returns_true_whatever_the_bus_does [of chip0]
    by simp
qed

section \<open>Decoding without clamping\<close>

text \<open>
  C10. \<^verbatim>\<open>getMinSystemV\<close> decodes whatever the six-bit field holds: for the raw value
  \<open>r\<close>, between 0 and 63, it returns \<open>2.5 + 0.25 r\<close>, computed without rounding
  error. For \<open>r\<close> above 54 this is more than 16.0, and \<^verbatim>\<open>setMinSystemV\<close> rejects
  the value the getter returned.
\<close>

theorem getter_returns_what_setter_rejects:
  "unat (RegisterBits_read (RegisterBits (Register BQ25798_REG_MINIMAL_SYSTEM_VOLTAGE 1) 6 0) d) \<le> 63
   \<and> getMinSystemV d = Finite (25 / 10 + 25 / 100 * of_nat (unat
         (RegisterBits_read (RegisterBits (Register BQ25798_REG_MINIMAL_SYSTEM_VOLTAGE 1) 6 0) d)))
   \<and> (54 < unat (RegisterBits_read (RegisterBits (Register BQ25798_REG_MINIMAL_SYSTEM_VOLTAGE 1) 6 0) d)
        \<longrightarrow> f32_greater (getMinSystemV d) (f32_lit 16)
            \<and> setMinSystemV (getMinSystemV d) d = Some (False, d))"
proof -
  define r where
    "r = RegisterBits_read (RegisterBits (Register BQ25798_REG_MINIMAL_SYSTEM_VOLTAGE 1) 6 0) d"
  define n where "n = unat r"
  obtain y where y: "r = y AND mask 6"
    by (simp add: r_def RegisterBits_read_def Let_def)
  have b: "n \<le> 63"
    using unat_field_bound [of y 6] by (simp add: y n_def)
  have "uint (ucast r :: 8 word) = uint r"
    unfolding y by (rule uint_field_8) simp
  then have "uint (ucast r :: 8 word) = int n"
    by (simp only: n_def uint_nat)
  then have g: "getMinSystemV d
      = f32_add (f32_mul (f32_of_int (int n)) (f32_lit (25 / 100))) (f32_lit (25 / 10))"
    unfolding getMinSystemV_def Let_def r_def [symmetric] by (simp only:)
  have v: "getMinSystemV d = Finite (25 / 10 + 25 / 100 * of_nat n)"
    unfolding g using b by (rule min_system_decoding)
  have rej: "f32_greater (getMinSystemV d) (f32_lit 16)
             \<and> setMinSystemV (getMinSystemV d) d = Some (False, d)" if "54 < n"
  proof -
    have "(55::rat) \<le> of_nat n" using that by simp
    then have "f32_greater (getMinSystemV d) (f32_lit 16)"
      by (simp add: v literal_values f32_greater_def)
    then show ?thesis by (simp add: setMinSystemV_def)
  qed
  show ?thesis
    unfolding r_def [symmetric] n_def [symmetric] using b v rej by blast
qed

theorem getter_returns_what_setter_rejects_witness:
  "54 < unat (RegisterBits_read (RegisterBits (Register BQ25798_REG_MINIMAL_SYSTEM_VOLTAGE 1) 6 0)
       saturated_chip)
   \<and> getMinSystemV saturated_chip = Finite (73 / 4)
   \<and> f32_greater (Finite (73 / 4)) (f32_lit 16)
   \<and> setMinSystemV (Finite (73 / 4)) saturated_chip = Some (False, saturated_chip)"
proof -
  define n where "n = unat (RegisterBits_read
    (RegisterBits (Register BQ25798_REG_MINIMAL_SYSTEM_VOLTAGE 1) 6 0) saturated_chip)"
  have "unat (RegisterBits_read (RegisterBits (Register BQ25798_REG_MINIMAL_SYSTEM_VOLTAGE 1) 6 0)
       saturated_chip) = 63"
    by code_simp
  then have n: "n = 63" by (simp only: n_def)
  have "n \<le> 63 \<and> getMinSystemV saturated_chip = Finite (25 / 10 + 25 / 100 * of_nat n)
    \<and> (54 < n \<longrightarrow> f32_greater (getMinSystemV saturated_chip) (f32_lit 16)
            \<and> setMinSystemV (getMinSystemV saturated_chip) saturated_chip
                = Some (False, saturated_chip))"
    unfolding n_def by (rule getter_returns_what_setter_rejects)
  then show ?thesis
    unfolding n_def [symmetric] by (auto simp add: n)
qed


end
